theory Spec2Isabelle
  imports Main "HOL-Library.AList" "HOL-Library.Word"
begin

unbundle bit_operations_syntax

section \<open>Rigid body component system: data model\<close>

text \<open>
  A shallow embedding of \<^verbatim>\<open>src/framework/components/physics/rigidbody_system.js\<close>.
  Numbers are only ever copied by the code under study, never computed with, so the
  number type is a parameter \<open>'n\<close>; the class \<open>zero\<close> supplies the components of a
  freshly constructed \<^verbatim>\<open>pc.Vec3\<close>.
\<close>

datatype 'n Vec3 = Vec3 'n 'n 'n

datatype 'n btVector3 = btVector3 'n 'n 'n

fun bt_x :: "'n btVector3 \<Rightarrow> 'n" where "bt_x (btVector3 a b c) = a"
fun bt_y :: "'n btVector3 \<Rightarrow> 'n" where "bt_y (btVector3 a b c) = b"
fun bt_z :: "'n btVector3 \<Rightarrow> 'n" where "bt_z (btVector3 a b c) = c"

text \<open>\<^verbatim>\<open>v.set(x, y, z)\<close> overwrites all three components of the receiver.\<close>

fun Vec3_set :: "'n Vec3 \<Rightarrow> 'n \<Rightarrow> 'n \<Rightarrow> 'n \<Rightarrow> 'n Vec3" where
  "Vec3_set (Vec3 a b c) a' b' c' = Vec3 a' b' c'"

definition Vec3_new :: "('n::zero) Vec3" where
  "Vec3_new = Vec3 0 0 0"

text \<open>The contact point of the physics engine, read through its five accessors.\<close>

record 'n btManifoldPoint =
  m_localPointA :: "'n btVector3"
  m_localPointB :: "'n btVector3"
  positionWorldOnA :: "'n btVector3"
  positionWorldOnB :: "'n btVector3"
  m_normalWorldOnB :: "'n btVector3"

record 'n ContactPoint =
  localPoint :: "'n Vec3"
  localPointOther :: "'n Vec3"
  point :: "'n Vec3"
  pointOther :: "'n Vec3"
  normal :: "'n Vec3"

text \<open>
  An entity reference: the identity of the object together with the guid its
  \<^verbatim>\<open>getGuid()\<close> returns. \<^verbatim>\<open>indexOf\<close> compares references, the registries are keyed by
  guid; two references with one guid are different entities sharing a registry entry.
\<close>

datatype entity = Entity (ident: nat) (getGuid: string)

text \<open>
  What the update reads from an entity at the time of a step: the optional
  \<^verbatim>\<open>collision\<close> sub-component (with the names of the events that have a handler), and
  whether \<^verbatim>\<open>entity.rigidbody\<close> and \<^verbatim>\<open>entity.trigger\<close> are set.
\<close>

record collision_component =
  handlers :: "string list"

definition hasEvent :: "collision_component \<Rightarrow> string \<Rightarrow> bool" where
  "hasEvent c name = (name \<in> set (handlers c))"

record entity_data =
  collision :: "collision_component option"
  rigidbody :: bool
  trigger :: bool

record body =
  body_entity :: "entity option"
  collisionFlags :: "32 word"

text \<open>
  \<^verbatim>\<open>pc.BODYFLAG_NORESPONSE_OBJECT\<close> lives in \<^verbatim>\<open>rigidbody_constants.js\<close>; the deprecated
  alias \<^verbatim>\<open>RIGIDBODY_CF_NORESPONSE_OBJECT: 4\<close> of this file gives its value.
\<close>

definition BODYFLAG_NORESPONSE_OBJECT :: "32 word" where
  "BODYFLAG_NORESPONSE_OBJECT = 4"

definition noResponse :: "32 word \<Rightarrow> bool" where
  "noResponse flags = (flags AND BODYFLAG_NORESPONSE_OBJECT \<noteq> 0)"

record 'n manifold =
  body0 :: body
  body1 :: body
  contactPoints :: "'n btManifoldPoint list"

definition getNumContacts :: "'n manifold \<Rightarrow> nat" where
  "getNumContacts m = length (contactPoints m)"

record 'n ContactResult =
  other :: entity
  contacts :: "'n ContactPoint list"

record 'n SingleContactResult =
  sc_a :: entity
  sc_b :: entity
  sc_localPointA :: "'n Vec3"
  sc_localPointB :: "'n Vec3"
  sc_pointA :: "'n Vec3"
  sc_pointB :: "'n Vec3"
  sc_normal :: "'n Vec3"

text \<open>
  Event handlers are opaque to this file. A call of \<^verbatim>\<open>fire\<close> is recorded in a log, in
  order: \<open>Fire e name p\<close> for \<^verbatim>\<open>e.collision.fire(name, p)\<close> and \<open>FireSystem name p\<close>
  for \<^verbatim>\<open>this.fire(name, p)\<close>. Handlers are taken to return normally and to leave the
  registries alone (they are private to the module).
\<close>

datatype 'n payload =
  Other entity
| Contacts "'n ContactResult"
| Single "'n SingleContactResult"

datatype 'n event =
  Fire entity string "'n payload"
| FireSystem string "'n payload"

text \<open>
  A registry (\<^verbatim>\<open>collisions\<close>, \<^verbatim>\<open>frameCollisions\<close>) is a JavaScript object keyed by
  guid. It is kept as an association list in insertion order, the order in which
  \<^verbatim>\<open>for (guid in collisions)\<close> visits it. Guids are taken not to be names of
  \<^verbatim>\<open>Object.prototype\<close>.
\<close>

record entry =
  others :: "entity list"
  entity :: entity

type_synonym registry = "(string \<times> entry) list"

record 'n sys_state =
  collisions :: registry
  frameCollisions :: registry
  fired :: "'n event list"

datatype error = TypeError

text \<open>What a step reads from its surroundings.\<close>

record 'n frame =
  ents :: "entity \<Rightarrow> entity_data"
  manifolds :: "'n manifold list"
  globalContact :: bool

section \<open>Operations\<close>

subsection \<open>Contact points and results\<close>

text \<open>
  The first argument of the two constructors is the instance handed out by
  \<^verbatim>\<open>contactPointPool.allocate()\<close>, with whatever an earlier step left in it.
\<close>

definition createContactPointFromAmmo ::
  "'n ContactPoint \<Rightarrow> 'n btManifoldPoint \<Rightarrow> 'n ContactPoint" where
  "createContactPointFromAmmo contact contactPoint =
     contact
       \<lparr> localPoint := Vec3_set (localPoint contact)
           (bt_x (m_localPointA contactPoint)) (bt_y (m_localPointA contactPoint))
           (bt_z (m_localPointA contactPoint)),
         localPointOther := Vec3_set (localPointOther contact)
           (bt_x (m_localPointB contactPoint)) (bt_y (m_localPointB contactPoint))
           (bt_z (m_localPointB contactPoint)),
         point := Vec3_set (point contact)
           (bt_x (positionWorldOnA contactPoint)) (bt_y (positionWorldOnA contactPoint))
           (bt_z (positionWorldOnA contactPoint)),
         pointOther := Vec3_set (pointOther contact)
           (bt_x (positionWorldOnB contactPoint)) (bt_y (positionWorldOnB contactPoint))
           (bt_z (positionWorldOnB contactPoint)),
         normal := Vec3_set (normal contact)
           (bt_x (m_normalWorldOnB contactPoint)) (bt_y (m_normalWorldOnB contactPoint))
           (bt_z (m_normalWorldOnB contactPoint)) \<rparr>"

definition createReverseContactPointFromAmmo ::
  "'n ContactPoint \<Rightarrow> 'n btManifoldPoint \<Rightarrow> 'n ContactPoint" where
  "createReverseContactPointFromAmmo contact contactPoint =
     contact
       \<lparr> localPointOther := Vec3_set (localPointOther contact)
           (bt_x (m_localPointA contactPoint)) (bt_y (m_localPointA contactPoint))
           (bt_z (m_localPointA contactPoint)),
         localPoint := Vec3_set (localPoint contact)
           (bt_x (m_localPointB contactPoint)) (bt_y (m_localPointB contactPoint))
           (bt_z (m_localPointB contactPoint)),
         pointOther := Vec3_set (pointOther contact)
           (bt_x (positionWorldOnA contactPoint)) (bt_y (positionWorldOnA contactPoint))
           (bt_z (positionWorldOnA contactPoint)),
         point := Vec3_set (point contact)
           (bt_x (positionWorldOnB contactPoint)) (bt_y (positionWorldOnB contactPoint))
           (bt_z (positionWorldOnB contactPoint)),
         normal := Vec3_set (normal contact)
           (bt_x (m_normalWorldOnB contactPoint)) (bt_y (m_normalWorldOnB contactPoint))
           (bt_z (m_normalWorldOnB contactPoint)) \<rparr>"

text \<open>A pool that grows constructs its instances with no arguments.\<close>

definition ContactPoint_new :: "('n::zero) ContactPoint" where
  "ContactPoint_new =
     \<lparr> localPoint = Vec3_new, localPointOther = Vec3_new, point = Vec3_new,
       pointOther = Vec3_new, normal = Vec3_new \<rparr>"

definition createSingleContactResult ::
  "entity \<Rightarrow> entity \<Rightarrow> 'n ContactPoint \<Rightarrow> 'n SingleContactResult" where
  "createSingleContactResult a b contactPoint =
     \<lparr> sc_a = a, sc_b = b,
       sc_localPointA = localPoint contactPoint,
       sc_localPointB = localPointOther contactPoint,
       sc_pointA = point contactPoint,
       sc_pointB = pointOther contactPoint,
       sc_normal = normal contactPoint \<rparr>"

definition createContactResult :: "entity \<Rightarrow> 'n ContactPoint list \<Rightarrow> 'n ContactResult" where
  "createContactResult oth cs = \<lparr> other = oth, contacts = cs \<rparr>"

subsection \<open>The two registries\<close>

text \<open>\<^verbatim>\<open>reg[guid] || {others: [], entity: entity}\<close>\<close>

definition entry_or_new :: "registry \<Rightarrow> string \<Rightarrow> entity \<Rightarrow> entry" where
  "entry_or_new reg guid e =
     (case map_of reg guid of
        Some en \<Rightarrow> en
      | None \<Rightarrow> \<lparr> others = [], entity = e \<rparr>)"

definition storeCollision :: "entity \<Rightarrow> entity \<Rightarrow> 'n sys_state \<Rightarrow> bool \<times> 'n sys_state" where
  "storeCollision e oth st =
     (let guid = getGuid e;
          en = entry_or_new (collisions st) guid e;
          isNewCollision = (oth \<notin> set (others en));
          en' = (if isNewCollision then en \<lparr> others := others en @ [oth] \<rparr> else en);
          fen = entry_or_new (frameCollisions st) guid e
      in (isNewCollision,
          st \<lparr> collisions := AList.update guid en' (collisions st),
               frameCollisions :=
                 AList.update guid (fen \<lparr> others := others fen @ [oth] \<rparr>) (frameCollisions st) \<rparr>))"

definition fire :: "entity \<Rightarrow> string \<Rightarrow> 'n payload \<Rightarrow> 'n sys_state \<Rightarrow> 'n sys_state" where
  "fire e name p st = st \<lparr> fired := fired st @ [Fire e name p] \<rparr>"

definition fireSystem :: "string \<Rightarrow> 'n payload \<Rightarrow> 'n sys_state \<Rightarrow> 'n sys_state" where
  "fireSystem name p st = st \<lparr> fired := fired st @ [FireSystem name p] \<rparr>"

subsection \<open>The frame update\<close>

definition triggerEvents :: "collision_component \<Rightarrow> bool" where
  "triggerEvents c = (hasEvent c ''triggerenter'' \<or> hasEvent c ''triggerleave'')"

definition collisionEvents :: "collision_component \<Rightarrow> bool" where
  "collisionEvents c =
     (hasEvent c ''collisionstart'' \<or> hasEvent c ''collisionend'' \<or> hasEvent c ''contact'')"

text \<open>
  One side of the trigger branch (the block under \<^verbatim>\<open>if (e0Events)\<close>, and its mirror
  under \<^verbatim>\<open>if (e1Events)\<close>): \<open>e\<close> is the side, \<open>oth\<close> the opposite entity and
  \<open>othFlags\<close> the collision flags of the opposite body.
\<close>

definition triggerSide ::
  "(entity \<Rightarrow> entity_data) \<Rightarrow> entity \<Rightarrow> entity \<Rightarrow> 32 word \<Rightarrow> 'n sys_state \<Rightarrow> 'n sys_state" where
  "triggerSide env e oth othFlags st =
     (let (newCollision, st1) = storeCollision e oth st
      in if newCollision then
           (if collision (env e) \<noteq> None \<and> \<not> noResponse othFlags
            then fire e ''triggerenter'' (Other oth) st1 else st1)
         else st1)"

text \<open>One side of the collision branch, after the loop over the contact points.\<close>

definition collisionSide ::
  "(entity \<Rightarrow> entity_data) \<Rightarrow> entity \<Rightarrow> entity \<Rightarrow> 'n ContactPoint list \<Rightarrow> 'n sys_state
     \<Rightarrow> 'n sys_state" where
  "collisionSide env e oth cs st =
     (let result = createContactResult oth cs;
          st1 = (if collision (env e) \<noteq> None then fire e ''contact'' (Contacts result) st else st);
          (newCollision, st2) = storeCollision e oth st1
      in if newCollision \<and> collision (env e) \<noteq> None
         then fire e ''collisionstart'' (Contacts result) st2 else st2)"

text \<open>
  The loop over the contact points of a manifold; \<open>sideEvents\<close> is
  \<^verbatim>\<open>e0Events || e1Events\<close>.
\<close>

fun contactLoop ::
  "bool \<Rightarrow> bool \<Rightarrow> entity \<Rightarrow> entity \<Rightarrow> ('n::zero) btManifoldPoint list
     \<Rightarrow> 'n ContactPoint list \<Rightarrow> 'n ContactPoint list \<Rightarrow> 'n sys_state
     \<Rightarrow> 'n ContactPoint list \<times> 'n ContactPoint list \<times> 'n sys_state" where
  "contactLoop sideEvents globalEvents e0 e1 [] forwardContacts reverseContacts st =
     (forwardContacts, reverseContacts, st)"
| "contactLoop sideEvents globalEvents e0 e1 (btContactPoint # rest) forwardContacts
       reverseContacts st =
     (let contactPoint = createContactPointFromAmmo ContactPoint_new btContactPoint;
          (forwardContacts', reverseContacts') =
            (if sideEvents
             then (forwardContacts @ [contactPoint],
                   reverseContacts @
                     [createReverseContactPointFromAmmo ContactPoint_new btContactPoint])
             else (forwardContacts, reverseContacts));
          st' = (if globalEvents
                 then fireSystem ''contact''
                        (Single (createSingleContactResult e0 e1 contactPoint)) st
                 else st)
      in contactLoop sideEvents globalEvents e0 e1 rest forwardContacts' reverseContacts' st')"

text \<open>
  The body of the loop over the manifolds. Reading \<^verbatim>\<open>e.collision.hasEvent\<close> of an
  entity without a collision sub-component throws; the state at the throw is kept.
\<close>

definition processManifold ::
  "(entity \<Rightarrow> entity_data) \<Rightarrow> bool \<Rightarrow> ('n::zero) manifold \<Rightarrow> 'n sys_state
     \<Rightarrow> (error \<times> 'n sys_state) + 'n sys_state" where
  "processManifold env globalEvents m st =
     (case body_entity (body0 m) of
        None \<Rightarrow> Inr st
      | Some e0 \<Rightarrow>
     (case body_entity (body1 m) of
        None \<Rightarrow> Inr st
      | Some e1 \<Rightarrow>
          let flags0 = collisionFlags (body0 m);
              flags1 = collisionFlags (body1 m)
          in if getNumContacts m > 0 then
               (if noResponse flags0 \<or> noResponse flags1 then
                  (case collision (env e0) of
                     None \<Rightarrow> Inl (TypeError, st)
                   | Some c0 \<Rightarrow>
                  (case collision (env e1) of
                     None \<Rightarrow> Inl (TypeError, st)
                   | Some c1 \<Rightarrow>
                       let e0Events = triggerEvents c0;
                           e1Events = triggerEvents c1;
                           st1 = (if e0Events then triggerSide env e0 e1 flags1 st else st);
                           st2 = (if e1Events then triggerSide env e1 e0 flags0 st1 else st1)
                       in Inr st2))
                else
                  (case collision (env e0) of
                     None \<Rightarrow> Inl (TypeError, st)
                   | Some c0 \<Rightarrow>
                  (case collision (env e1) of
                     None \<Rightarrow> Inl (TypeError, st)
                   | Some c1 \<Rightarrow>
                       let e0Events = collisionEvents c0;
                           e1Events = collisionEvents c1
                       in if globalEvents \<or> e0Events \<or> e1Events then
                            (let (forwardContacts, reverseContacts, st1) =
                                   contactLoop (e0Events \<or> e1Events) globalEvents e0 e1
                                     (contactPoints m) [] [] st;
                                 st2 = (if e0Events
                                        then collisionSide env e0 e1 forwardContacts st1 else st1);
                                 st3 = (if e1Events
                                        then collisionSide env e1 e0 reverseContacts st2 else st2)
                             in Inr st3)
                          else Inr st)))
             else Inr st))"

fun manifoldLoop ::
  "(entity \<Rightarrow> entity_data) \<Rightarrow> bool \<Rightarrow> ('n::zero) manifold list \<Rightarrow> 'n sys_state
     \<Rightarrow> (error \<times> 'n sys_state) + 'n sys_state" where
  "manifoldLoop env globalEvents [] st = Inr st"
| "manifoldLoop env globalEvents (m # ms) st =
     (case processManifold env globalEvents m st of
        Inl err \<Rightarrow> Inl err
      | Inr st' \<Rightarrow> manifoldLoop env globalEvents ms st')"

subsection \<open>Reconciliation\<close>

text \<open>What the reconciliation fires on \<open>ent\<close> for a pairing with \<open>oth\<close> that has ended.\<close>

definition endEvents :: "(entity \<Rightarrow> entity_data) \<Rightarrow> entity \<Rightarrow> entity \<Rightarrow> 'n event list" where
  "endEvents env ent oth =
     (if collision (env ent) \<noteq> None \<and> collision (env oth) \<noteq> None then
        (if rigidbody (env ent) \<and> rigidbody (env oth) then [Fire ent ''collisionend'' (Other oth)]
         else if trigger (env ent) then [Fire ent ''triggerleave'' (Other oth)]
         else [])
      else [])"

text \<open>
  \<^verbatim>\<open>while (i--)\<close> over the \<open>others\<close> of one entry: the first numeric argument is the value
  of \<open>i\<close> before the test, the list is \<open>others\<close> as spliced so far.
\<close>

fun cleanOthers ::
  "(entity \<Rightarrow> entity_data) \<Rightarrow> registry \<Rightarrow> string \<Rightarrow> entity \<Rightarrow> nat \<Rightarrow> entity list
     \<Rightarrow> 'n event list \<Rightarrow> entity list \<times> 'n event list" where
  "cleanOthers env freg guid ent 0 os evs = (os, evs)"
| "cleanOthers env freg guid ent (Suc i) os evs =
     (let oth = os ! i
      in if (case map_of freg guid of None \<Rightarrow> True | Some fen \<Rightarrow> oth \<notin> set (others fen))
         then cleanOthers env freg guid ent i (take i os @ drop (Suc i) os)
                (evs @ endEvents env ent oth)
         else cleanOthers env freg guid ent i os evs)"

definition cleanGuid ::
  "(entity \<Rightarrow> entity_data) \<Rightarrow> string \<Rightarrow> 'n sys_state \<Rightarrow> 'n sys_state" where
  "cleanGuid env guid st =
     (case map_of (collisions st) guid of
        None \<Rightarrow> st
      | Some en \<Rightarrow>
          let (os, evs) = cleanOthers env (frameCollisions st) guid (entity en)
                            (length (others en)) (others en) []
          in st \<lparr> collisions :=
                    (if length os = 0 then AList.delete guid (collisions st)
                     else AList.update guid (en \<lparr> others := os \<rparr>) (collisions st)),
                  fired := fired st @ evs \<rparr>)"

definition cleanOldCollisions ::
  "(entity \<Rightarrow> entity_data) \<Rightarrow> 'n sys_state \<Rightarrow> 'n sys_state" where
  "cleanOldCollisions env st = fold (cleanGuid env) (map fst (collisions st)) st"

text \<open>
  The part of \<^verbatim>\<open>onUpdate\<close> that follows the simulation step and the transform
  synchronisation: the manifolds of the frame are what the dispatcher holds after
  \<^verbatim>\<open>stepSimulation\<close>. The pools are reset after the reconciliation and hold no state the
  registries or the log depend on.
\<close>

definition onUpdate ::
  "('n::zero) frame \<Rightarrow> 'n sys_state \<Rightarrow> (error \<times> 'n sys_state) + 'n sys_state" where
  "onUpdate fr st =
     (case manifoldLoop (ents fr) (globalContact fr) (manifolds fr)
             (st \<lparr> frameCollisions := [] \<rparr>) of
        Inl err \<Rightarrow> Inl err
      | Inr st1 \<Rightarrow> Inr (cleanOldCollisions (ents fr) st1))"

text \<open>Consecutive steps, each on the state the one before it left.\<close>

fun onUpdates ::
  "('n::zero) frame list \<Rightarrow> 'n sys_state \<Rightarrow> (error \<times> 'n sys_state) + 'n sys_state" where
  "onUpdates [] st = Inr st"
| "onUpdates (fr # frs) st =
     (case onUpdate fr st of
        Inl err \<Rightarrow> Inl err
      | Inr st' \<Rightarrow> onUpdates frs st')"

definition initial :: "'n sys_state" where
  "initial = \<lparr> collisions = [], frameCollisions = [], fired = [] \<rparr>"

subsection \<open>The frame update with handlers that act on entities\<close>

text \<open>
  In \<open>onUpdate\<close> above an entity reads the same at every point of a step: the
  handlers that \<^verbatim>\<open>fire\<close> runs leave the entities as they are. A handler may do
  otherwise, and the update reads an entity again after it has run handlers: the tests
  \<^verbatim>\<open>if (e0.collision)\<close> and \<^verbatim>\<open>newCollision && e0.collision\<close> follow the handlers of
  \<^verbatim>\<open>contact\<close>, every manifold follows the handlers of the manifolds before it, and
  the reconciliation follows them all. What an entity (and \<^verbatim>\<open>this.hasEvent("contact")\<close>)
  reads at a point of a step is fixed by the program state at the start of the step and
  the calls of \<^verbatim>\<open>fire\<close> made so far; so a scene gives them as functions of the log.
  The handlers are still taken to return, to leave the registries alone (they are private
  to the module) and to leave the dispatcher's manifolds alone.
\<close>

record 'n scene =
  entsAt :: "'n event list \<Rightarrow> entity \<Rightarrow> entity_data"
  sceneManifolds :: "'n manifold list"
  systemContactAt :: "'n event list \<Rightarrow> bool"

definition triggerSide_live ::
  "('n event list \<Rightarrow> entity \<Rightarrow> entity_data) \<Rightarrow> entity \<Rightarrow> entity \<Rightarrow> 32 word \<Rightarrow> 'n sys_state
     \<Rightarrow> 'n sys_state" where
  "triggerSide_live world e oth othFlags st =
     (let (newCollision, st1) = storeCollision e oth st
      in if newCollision then
           (if collision (world (fired st1) e) \<noteq> None \<and> \<not> noResponse othFlags
            then fire e ''triggerenter'' (Other oth) st1 else st1)
         else st1)"

definition collisionSide_live ::
  "('n event list \<Rightarrow> entity \<Rightarrow> entity_data) \<Rightarrow> entity \<Rightarrow> entity \<Rightarrow> 'n ContactPoint list
     \<Rightarrow> 'n sys_state \<Rightarrow> 'n sys_state" where
  "collisionSide_live world e oth cs st =
     (let result = createContactResult oth cs;
          st1 = (if collision (world (fired st) e) \<noteq> None
                 then fire e ''contact'' (Contacts result) st else st);
          (newCollision, st2) = storeCollision e oth st1
      in if newCollision \<and> collision (world (fired st2) e) \<noteq> None
         then fire e ''collisionstart'' (Contacts result) st2 else st2)"

text \<open>
  The three reads of \<^verbatim>\<open>hasEvent\<close> of a branch come before the first \<^verbatim>\<open>fire\<close> for
  the manifold, so they read the entities at the log the manifold starts with.
\<close>

definition processManifold_live ::
  "('n event list \<Rightarrow> entity \<Rightarrow> entity_data) \<Rightarrow> ('n event list \<Rightarrow> bool) \<Rightarrow> ('n::zero) manifold
     \<Rightarrow> 'n sys_state \<Rightarrow> (error \<times> 'n sys_state) + 'n sys_state" where
  "processManifold_live world systemContact m st =
     (case body_entity (body0 m) of
        None \<Rightarrow> Inr st
      | Some e0 \<Rightarrow>
     (case body_entity (body1 m) of
        None \<Rightarrow> Inr st
      | Some e1 \<Rightarrow>
          let flags0 = collisionFlags (body0 m);
              flags1 = collisionFlags (body1 m)
          in if getNumContacts m > 0 then
               (if noResponse flags0 \<or> noResponse flags1 then
                  (case collision (world (fired st) e0) of
                     None \<Rightarrow> Inl (TypeError, st)
                   | Some c0 \<Rightarrow>
                  (case collision (world (fired st) e1) of
                     None \<Rightarrow> Inl (TypeError, st)
                   | Some c1 \<Rightarrow>
                       let e0Events = triggerEvents c0;
                           e1Events = triggerEvents c1;
                           st1 = (if e0Events then triggerSide_live world e0 e1 flags1 st else st);
                           st2 = (if e1Events then triggerSide_live world e1 e0 flags0 st1 else st1)
                       in Inr st2))
                else
                  (case collision (world (fired st) e0) of
                     None \<Rightarrow> Inl (TypeError, st)
                   | Some c0 \<Rightarrow>
                  (case collision (world (fired st) e1) of
                     None \<Rightarrow> Inl (TypeError, st)
                   | Some c1 \<Rightarrow>
                       let e0Events = collisionEvents c0;
                           e1Events = collisionEvents c1;
                           globalEvents = systemContact (fired st)
                       in if globalEvents \<or> e0Events \<or> e1Events then
                            (let (forwardContacts, reverseContacts, st1) =
                                   contactLoop (e0Events \<or> e1Events) globalEvents e0 e1
                                     (contactPoints m) [] [] st;
                                 st2 = (if e0Events
                                        then collisionSide_live world e0 e1 forwardContacts st1
                                        else st1);
                                 st3 = (if e1Events
                                        then collisionSide_live world e1 e0 reverseContacts st2
                                        else st2)
                             in Inr st3)
                          else Inr st)))
             else Inr st))"

fun manifoldLoop_live ::
  "('n event list \<Rightarrow> entity \<Rightarrow> entity_data) \<Rightarrow> ('n event list \<Rightarrow> bool)
     \<Rightarrow> ('n::zero) manifold list \<Rightarrow> 'n sys_state \<Rightarrow> (error \<times> 'n sys_state) + 'n sys_state" where
  "manifoldLoop_live world systemContact [] st = Inr st"
| "manifoldLoop_live world systemContact (m # ms) st =
     (case processManifold_live world systemContact m st of
        Inl err \<Rightarrow> Inl err
      | Inr st' \<Rightarrow> manifoldLoop_live world systemContact ms st')"

text \<open>
  The reconciliation: \<open>entityCollision\<close> is read once for an entry, before its loop;
  \<^verbatim>\<open>other.collision\<close>, the two \<^verbatim>\<open>rigidbody\<close> fields and \<^verbatim>\<open>entity.trigger\<close> are read
  at each pairing that has ended, at the log reached there.
\<close>

definition endEvents_live ::
  "('n event list \<Rightarrow> entity \<Rightarrow> entity_data) \<Rightarrow> 'n event list \<Rightarrow> bool \<Rightarrow> entity \<Rightarrow> entity
     \<Rightarrow> 'n event list" where
  "endEvents_live world log entityCollision ent oth =
     (if entityCollision \<and> collision (world log oth) \<noteq> None then
        (if rigidbody (world log ent) \<and> rigidbody (world log oth)
         then [Fire ent ''collisionend'' (Other oth)]
         else if trigger (world log ent) then [Fire ent ''triggerleave'' (Other oth)]
         else [])
      else [])"

fun cleanOthers_live ::
  "('n event list \<Rightarrow> entity \<Rightarrow> entity_data) \<Rightarrow> registry \<Rightarrow> string \<Rightarrow> entity \<Rightarrow> bool \<Rightarrow> nat
     \<Rightarrow> entity list \<Rightarrow> 'n event list \<Rightarrow> entity list \<times> 'n event list" where
  "cleanOthers_live world freg guid ent entityCollision 0 os log = (os, log)"
| "cleanOthers_live world freg guid ent entityCollision (Suc i) os log =
     (let oth = os ! i
      in if (case map_of freg guid of None \<Rightarrow> True | Some fen \<Rightarrow> oth \<notin> set (others fen))
         then cleanOthers_live world freg guid ent entityCollision i
                (take i os @ drop (Suc i) os)
                (log @ endEvents_live world log entityCollision ent oth)
         else cleanOthers_live world freg guid ent entityCollision i os log)"

definition cleanGuid_live ::
  "('n event list \<Rightarrow> entity \<Rightarrow> entity_data) \<Rightarrow> string \<Rightarrow> 'n sys_state \<Rightarrow> 'n sys_state" where
  "cleanGuid_live world guid st =
     (case map_of (collisions st) guid of
        None \<Rightarrow> st
      | Some en \<Rightarrow>
          let entityCollision = (collision (world (fired st) (entity en)) \<noteq> None);
              (os, log) = cleanOthers_live world (frameCollisions st) guid (entity en)
                            entityCollision (length (others en)) (others en) (fired st)
          in st \<lparr> collisions :=
                    (if length os = 0 then AList.delete guid (collisions st)
                     else AList.update guid (en \<lparr> others := os \<rparr>) (collisions st)),
                  fired := log \<rparr>)"

definition cleanOldCollisions_live ::
  "('n event list \<Rightarrow> entity \<Rightarrow> entity_data) \<Rightarrow> 'n sys_state \<Rightarrow> 'n sys_state" where
  "cleanOldCollisions_live world st = fold (cleanGuid_live world) (map fst (collisions st)) st"

definition onUpdate_live ::
  "('n::zero) scene \<Rightarrow> 'n sys_state \<Rightarrow> (error \<times> 'n sys_state) + 'n sys_state" where
  "onUpdate_live sc st =
     (case manifoldLoop_live (entsAt sc) (systemContactAt sc) (sceneManifolds sc)
             (st \<lparr> frameCollisions := [] \<rparr>) of
        Inl err \<Rightarrow> Inl err
      | Inr st1 \<Rightarrow> Inr (cleanOldCollisions_live (entsAt sc) st1))"

fun onUpdates_live ::
  "('n::zero) scene list \<Rightarrow> 'n sys_state \<Rightarrow> (error \<times> 'n sys_state) + 'n sys_state" where
  "onUpdates_live [] st = Inr st"
| "onUpdates_live (sc # scs) st =
     (case onUpdate_live sc st of
        Inl err \<Rightarrow> Inl err
      | Inr st' \<Rightarrow> onUpdates_live scs st')"

text \<open>A frame as a scene: its entities and system handlers read the same at every log.\<close>

definition steady :: "'n frame \<Rightarrow> 'n scene" where
  "steady fr =
     \<lparr> entsAt = (\<lambda>log. ents fr), sceneManifolds = manifolds fr,
       systemContactAt = (\<lambda>log. globalContact fr) \<rparr>"

subsection \<open>Native objects: ray casting and component removal\<close>

text \<open>
  Native objects are handles. Calls into the physics library that create, use or release
  one are recorded in order. The callback handed to \<^verbatim>\<open>raycastFirst\<close> is user code:
  its invocations are recorded with their argument, and each either returns or throws.
\<close>

datatype callback_outcome = Returns | Throws

datatype native_op =
  NewClosestRayResultCallback nat
| RayTest nat
| RemoveRigidBody nat
| Destroy nat

record 'n RaycastResult =
  rr_entity :: "entity option"
  rr_point :: "'n Vec3"
  rr_normal :: "'n Vec3"

text \<open>
  What the ray query object holds after \<^verbatim>\<open>rayTest\<close>: \<open>m_collisionObject\<close> is the
  result of \<^verbatim>\<open>Ammo.castObject(..., Ammo.btRigidBody)\<close>, \<open>None\<close> when it is null.
\<close>

record 'n rayResult =
  hasHit :: bool
  m_collisionObject :: "body option"
  m_hitPointWorld :: "'n btVector3"
  m_hitNormalWorld :: "'n btVector3"

record 'n native_state =
  nextHandle :: nat
  native_ops :: "native_op list"
  callbackCalls :: "'n RaycastResult list"

fun btVector3_setValue :: "'n btVector3 \<Rightarrow> 'n \<Rightarrow> 'n \<Rightarrow> 'n \<Rightarrow> 'n btVector3" where
  "btVector3_setValue (btVector3 a b c) a' b' c' = btVector3 a' b' c'"

fun vec_x :: "'n Vec3 \<Rightarrow> 'n" where "vec_x (Vec3 a b c) = a"
fun vec_y :: "'n Vec3 \<Rightarrow> 'n" where "vec_y (Vec3 a b c) = b"
fun vec_z :: "'n Vec3 \<Rightarrow> 'n" where "vec_z (Vec3 a b c) = c"

text \<open>
  \<open>world\<close> is \<^verbatim>\<open>dynamicsWorld.rayTest\<close>: from the two end points to what the query
  object holds afterwards. \<open>ammoRayStart\<close> and \<open>ammoRayEnd\<close> are the module's two
  shared vectors. Nothing in \<^verbatim>\<open>raycastFirst\<close> catches an exception of the callback: it
  leaves the function at the call, \<open>Inl\<close> with the state reached there.
\<close>

definition raycastFirst ::
  "('n btVector3 \<Rightarrow> 'n btVector3 \<Rightarrow> 'n rayResult) \<Rightarrow> 'n btVector3 \<Rightarrow> 'n btVector3
     \<Rightarrow> 'n Vec3 \<Rightarrow> 'n Vec3 \<Rightarrow> ('n RaycastResult \<Rightarrow> callback_outcome) \<Rightarrow> 'n native_state
     \<Rightarrow> 'n native_state + 'n native_state" where
  "raycastFirst world ammoRayStart ammoRayEnd start finish callback st =
     (let ammoRayStart' = btVector3_setValue ammoRayStart (vec_x start) (vec_y start) (vec_z start);
          ammoRayEnd' = btVector3_setValue ammoRayEnd (vec_x finish) (vec_y finish) (vec_z finish);
          rayCallback = nextHandle st;
          st1 = st \<lparr> nextHandle := Suc rayCallback,
                     native_ops := native_ops st @ [NewClosestRayResultCallback rayCallback] \<rparr>;
          r = world ammoRayStart' ammoRayEnd';
          st2 = st1 \<lparr> native_ops := native_ops st1 @ [RayTest rayCallback] \<rparr>
      in if hasHit r then
           (case m_collisionObject r of
              Some body \<Rightarrow>
                (let result =
                       \<lparr> rr_entity = body_entity body,
                         rr_point = Vec3 (bt_x (m_hitPointWorld r))
                           (bt_y (m_hitPointWorld r)) (bt_z (m_hitPointWorld r)),
                         rr_normal = Vec3 (bt_x (m_hitNormalWorld r))
                           (bt_y (m_hitNormalWorld r)) (bt_z (m_hitNormalWorld r)) \<rparr>;
                     st3 = st2 \<lparr> callbackCalls := callbackCalls st2 @ [result] \<rparr>
                 in case callback result of
                      Throws \<Rightarrow> Inl st3
                    | Returns \<Rightarrow> Inr (st3 \<lparr> native_ops := native_ops st3 @ [Destroy rayCallback] \<rparr>))
            | None \<Rightarrow> Inr (st2 \<lparr> native_ops := native_ops st2 @ [Destroy rayCallback] \<rparr>))
         else Inr (st2 \<lparr> native_ops := native_ops st2 @ [Destroy rayCallback] \<rparr>))"

text \<open>
  The component data of \<^verbatim>\<open>onRemove\<close>: only its \<^verbatim>\<open>body\<close> field is read or written.
  \<open>removeBody\<close> is \<^verbatim>\<open>dynamicsWorld.removeRigidBody\<close>.
\<close>

record component_data =
  data_body :: "nat option"

definition removeBody :: "nat \<Rightarrow> native_op list \<Rightarrow> native_op list" where
  "removeBody b ops = ops @ [RemoveRigidBody b]"

definition Ammo_destroy :: "nat \<Rightarrow> native_op list \<Rightarrow> native_op list" where
  "Ammo_destroy h ops = ops @ [Destroy h]"

definition onRemove :: "component_data \<Rightarrow> native_op list \<Rightarrow> component_data \<times> native_op list" where
  "onRemove data ops =
     (let ops' = (case data_body data of
                    Some b \<Rightarrow> Ammo_destroy b (removeBody b ops)
                  | None \<Rightarrow> ops)
      in (data \<lparr> data_body := None \<rparr>, ops'))"

section \<open>Observations\<close>

text \<open>The \<open>others\<close> a registry holds under a guid; none when there is no entry.\<close>

definition othersAt :: "registry \<Rightarrow> string \<Rightarrow> entity list" where
  "othersAt reg guid = (case map_of reg guid of None \<Rightarrow> [] | Some en \<Rightarrow> others en)"

text \<open>The pairing of \<open>e\<close> with \<open>oth\<close> is in the registry.\<close>

definition recorded :: "registry \<Rightarrow> entity \<Rightarrow> entity \<Rightarrow> bool" where
  "recorded reg e oth = (oth \<in> set (othersAt reg (getGuid e)))"

fun isStart :: "entity \<Rightarrow> entity \<Rightarrow> 'n event \<Rightarrow> bool" where
  "isStart e oth (Fire e' name (Contacts r)) =
     (e' = e \<and> name = ''collisionstart'' \<and> other r = oth)"
| "isStart e oth (Fire e' name (Other x)) = False"
| "isStart e oth (Fire e' name (Single x)) = False"
| "isStart e oth (FireSystem name p) = False"

text \<open>How often \<open>collisionstart\<close> was fired on \<open>e\<close> for a contact with \<open>oth\<close>.\<close>

definition countStart :: "entity \<Rightarrow> entity \<Rightarrow> 'n event list \<Rightarrow> nat" where
  "countStart e oth evs = length (filter (isStart e oth) evs)"

text \<open>How often \<open>triggerenter\<close>, \<open>triggerleave\<close>, \<open>collisionend\<close> was fired on \<open>e\<close> with \<open>oth\<close>.\<close>

definition countEnter :: "entity \<Rightarrow> entity \<Rightarrow> 'n event list \<Rightarrow> nat" where
  "countEnter e oth evs = count_list evs (Fire e ''triggerenter'' (Other oth))"

definition countLeave :: "entity \<Rightarrow> entity \<Rightarrow> 'n event list \<Rightarrow> nat" where
  "countLeave e oth evs = count_list evs (Fire e ''triggerleave'' (Other oth))"

definition countEnd :: "entity \<Rightarrow> entity \<Rightarrow> 'n event list \<Rightarrow> nat" where
  "countEnd e oth evs = count_list evs (Fire e ''collisionend'' (Other oth))"

text \<open>A manifold joins an entity of guid \<open>guid\<close>, on either side, with \<open>oth\<close> on the other.\<close>

definition links :: "string \<Rightarrow> entity \<Rightarrow> 'n manifold \<Rightarrow> bool" where
  "links guid oth m =
     (case body_entity (body0 m) of
        None \<Rightarrow> False
      | Some e0 \<Rightarrow>
     (case body_entity (body1 m) of
        None \<Rightarrow> False
      | Some e1 \<Rightarrow> (getGuid e0 = guid \<and> e1 = oth) \<or> (getGuid e1 = guid \<and> e0 = oth)))"

text \<open>What the loop over the contact points fires on the system.\<close>

definition globalContacts ::
  "bool \<Rightarrow> entity \<Rightarrow> entity \<Rightarrow> ('n::zero) btManifoldPoint list \<Rightarrow> 'n event list" where
  "globalContacts glob e0 e1 ps =
     (if glob then map (\<lambda>p. FireSystem ''contact''
         (Single (createSingleContactResult e0 e1 (createContactPointFromAmmo ContactPoint_new p)))) ps
      else [])"

text \<open>Either body of the manifold carries the no-response flag.\<close>

definition triggerPath :: "'n manifold \<Rightarrow> bool" where
  "triggerPath m =
     (noResponse (collisionFlags (body0 m)) \<or> noResponse (collisionFlags (body1 m)))"

text \<open>
  The side's \<open>e0Events\<close> or \<open>e1Events\<close> of the branch the manifold takes, and the
  calls of \<open>storeCollision\<close> a manifold makes, in order, when it is processed without a
  throw.
\<close>

definition listening :: "'n manifold \<Rightarrow> collision_component \<Rightarrow> bool" where
  "listening m c = (if triggerPath m then triggerEvents c else collisionEvents c)"

definition registered :: "(entity \<Rightarrow> entity_data) \<Rightarrow> 'n manifold \<Rightarrow> (entity \<times> entity) list" where
  "registered env m =
     (case body_entity (body0 m) of
        None \<Rightarrow> []
      | Some e0 \<Rightarrow>
     (case body_entity (body1 m) of
        None \<Rightarrow> []
      | Some e1 \<Rightarrow>
          if getNumContacts m > 0 then
            (case collision (env e0) of
               None \<Rightarrow> []
             | Some c0 \<Rightarrow>
            (case collision (env e1) of
               None \<Rightarrow> []
             | Some c1 \<Rightarrow>
                 (if listening m c0 then [(e0, e1)] else []) @
                 (if listening m c1 then [(e1, e0)] else [])))
          else []))"

text \<open>
  The reconciliation fires the event \<open>name\<close> on \<open>ent\<close> for an ended pairing with
  \<open>oth\<close>.
\<close>

definition endsWith :: "(entity \<Rightarrow> entity_data) \<Rightarrow> entity \<Rightarrow> entity \<Rightarrow> string \<Rightarrow> bool" where
  "endsWith env ent oth name =
     (collision (env ent) \<noteq> None \<and> collision (env oth) \<noteq> None \<and>
      (if rigidbody (env ent) \<and> rigidbody (env oth) then name = ''collisionend''
       else trigger (env ent) \<and> name = ''triggerleave''))"

text \<open>
  A registry as \<open>storeCollision\<close> and the reconciliation keep the durable one: one
  entry to a guid, filed under the guid of its entity, with no entity twice among its
  others and at least one.
\<close>

definition wfRegistry :: "registry \<Rightarrow> bool" where
  "wfRegistry reg =
     (distinct (map fst reg) \<and>
      (\<forall>(g, en) \<in> set reg. getGuid (entity en) = g \<and> distinct (others en) \<and> others en \<noteq> []))"

text \<open>
  How often the reconciliation of a state fires \<open>name\<close> on \<open>a\<close> with \<open>b\<close>:
  once for each occurrence of \<open>b\<close> among the others of \<open>a\<close>'s entry that the
  this-frame registry lacks.
\<close>

definition endCount ::
  "(entity \<Rightarrow> entity_data) \<Rightarrow> 'n sys_state \<Rightarrow> entity \<Rightarrow> entity \<Rightarrow> string \<Rightarrow> nat" where
  "endCount env st a b name =
     (case map_of (collisions st) (getGuid a) of
        None \<Rightarrow> 0
      | Some en \<Rightarrow>
          if entity en = a \<and> endsWith env a b name
          then count_list
                 (filter (\<lambda>x. x \<notin> set (othersAt (frameCollisions st) (getGuid a))) (others en)) b
          else 0)"



text \<open>What \<open>collisionSide_live\<close> fires before it registers the pairing.\<close>

definition contactFired ::
  "('n event list \<Rightarrow> entity \<Rightarrow> entity_data) \<Rightarrow> entity \<Rightarrow> entity \<Rightarrow> 'n ContactPoint list
     \<Rightarrow> 'n sys_state \<Rightarrow> 'n event list" where
  "contactFired world e oth cs st =
     (if collision (world (fired st) e) \<noteq> None
      then [Fire e ''contact'' (Contacts (createContactResult oth cs))] else [])"

section \<open>Example scenes\<close>

text \<open>
  Two entities and the frames of a few short scenes, over integer coordinates: a
  listening rigid body \<open>entA\<close> that touches, rests on and leaves \<open>entB\<close>; the same
  with no handler; \<open>entB\<close> as a trigger volume; \<open>entA\<close> as a trigger volume; and
  \<open>entB\<close> without a collision component.
\<close>

definition entA :: entity where "entA = Entity 1 ''a''"
definition entB :: entity where "entB = Entity 2 ''b''"

definition exContact :: "int btManifoldPoint" where
  "exContact =
     \<lparr> m_localPointA = btVector3 1 0 0, m_localPointB = btVector3 (- 1) 0 0,
       positionWorldOnA = btVector3 5 0 0, positionWorldOnB = btVector3 5 1 0,
       m_normalWorldOnB = btVector3 0 1 0 \<rparr>"

definition exManifold :: "32 word \<Rightarrow> 32 word \<Rightarrow> int btManifoldPoint list \<Rightarrow> int manifold" where
  "exManifold flags0 flags1 ps =
     \<lparr> body0 = \<lparr> body_entity = Some entA, collisionFlags = flags0 \<rparr>,
       body1 = \<lparr> body_entity = Some entB, collisionFlags = flags1 \<rparr>,
       contactPoints = ps \<rparr>"

definition exFrame ::
  "entity_data \<Rightarrow> entity_data \<Rightarrow> int manifold list \<Rightarrow> int frame" where
  "exFrame dataA dataB ms =
     \<lparr> ents = (\<lambda>e. if e = entA then dataA else dataB), manifolds = ms, globalContact = False \<rparr>"

definition exData :: "string list \<Rightarrow> bool \<Rightarrow> bool \<Rightarrow> entity_data" where
  "exData hs rb tr = \<lparr> collision = Some \<lparr> handlers = hs \<rparr>, rigidbody = rb, trigger = tr \<rparr>"

definition exResult :: "int ContactResult" where
  "exResult =
     \<lparr> other = entB,
       contacts = [\<lparr> localPoint = Vec3 1 0 0, localPointOther = Vec3 (- 1) 0 0,
                    point = Vec3 5 0 0, pointOther = Vec3 5 1 0, normal = Vec3 0 1 0 \<rparr>] \<rparr>"

definition exTouching :: "int event list \<Rightarrow> int sys_state" where
  "exTouching evs =
     \<lparr> collisions = [(''a'', \<lparr> others = [entB], entity = entA \<rparr>)],
       frameCollisions = [(''a'', \<lparr> others = [entB], entity = entA \<rparr>)],
       fired = evs \<rparr>"

definition collideFrame :: "int frame" where
  "collideFrame =
     exFrame (exData [''collisionstart''] True False) (exData [] True False)
       [exManifold 0 0 [exContact]]"

definition apartFrame :: "int frame" where
  "apartFrame = exFrame (exData [''collisionstart''] True False) (exData [] True False) []"

definition restingFrame :: "int frame" where
  "restingFrame =
     exFrame (exData [''collisionstart''] True False) (exData [] True False)
       [exManifold 0 0 []]"

definition deafFrame :: "int frame" where
  "deafFrame = exFrame (exData [] True False) (exData [] True False) [exManifold 0 0 [exContact]]"

definition volumeFrame :: "int frame" where
  "volumeFrame =
     exFrame (exData [''collisionstart''] True False) (exData [] False True)
       [exManifold 0 4 [exContact]]"

definition visitorFrame :: "int manifold list \<Rightarrow> int frame" where
  "visitorFrame ms =
     exFrame (exData [''triggerenter'', ''triggerleave''] True False) (exData [] False True) ms"

definition triggerFrame :: "int manifold list \<Rightarrow> int frame" where
  "triggerFrame ms =
     exFrame (exData [''triggerenter'', ''triggerleave''] False True) (exData [] True False) ms"

definition brokenFrame :: "int frame" where
  "brokenFrame =
     exFrame (exData [''collisionstart''] True False)
       \<lparr> collision = None, rigidbody = True, trigger = False \<rparr>
       [exManifold 0 0 [exContact]]"

text \<open>
  Two scenes in which the handler of \<open>contact\<close> on \<open>entA\<close> acts on
  \<open>entA\<close>: in the first it removes the collision component of \<open>entA\<close>, in the
  second it subscribes \<open>entA\<close> to \<open>collisionend\<close>. What \<open>entA\<close> reads
  depends on whether \<open>contact\<close> has been fired on it.
\<close>

fun contactOn :: "entity \<Rightarrow> 'n event \<Rightarrow> bool" where
  "contactOn a (Fire e name p) = (e = a \<and> name = ''contact'')"
| "contactOn a (FireSystem name p) = False"

definition removerScene :: "int scene" where
  "removerScene =
     \<lparr> entsAt = (\<lambda>log e. if e = entA
                   then (if list_ex (contactOn entA) log
                         then \<lparr> collision = None, rigidbody = True, trigger = False \<rparr>
                         else exData [''contact'', ''collisionstart''] True False)
                   else exData [] True False),
       sceneManifolds = [exManifold 0 0 [exContact]],
       systemContactAt = (\<lambda>log. False) \<rparr>"


section \<open>Properties\<close>

subsection \<open>Vectors\<close>

lemma Vec3_set_eq: "Vec3_set v a b c = Vec3 a b c"
  by (cases v) simp

lemma btVector3_setValue_eq: "btVector3_setValue v a b c = btVector3 a b c"
  by (cases v) simp

subsection \<open>Registries\<close>


lemma othersAt_update:
  "othersAt (AList.update k en reg) g = (if g = k then others en else othersAt reg g)"
  by (simp add: othersAt_def update_conv')

lemma othersAt_delete:
  "othersAt (AList.delete k reg) g = (if g = k then [] else othersAt reg g)"
  by (simp add: othersAt_def delete_conv')

lemma others_entry_or_new: "others (entry_or_new reg g e) = othersAt reg g"
  by (simp add: entry_or_new_def othersAt_def split: option.splits)

lemma fst_storeCollision:
  "fst (storeCollision e oth st) = (oth \<notin> set (othersAt (collisions st) (getGuid e)))"
  by (simp add: storeCollision_def Let_def others_entry_or_new)

lemma collisions_storeCollision:
  "set (othersAt (collisions (snd (storeCollision e oth st))) g) =
     set (othersAt (collisions st) g) \<union> (if g = getGuid e then {oth} else {})"
  by (auto simp add: storeCollision_def Let_def others_entry_or_new othersAt_update)

lemma frameCollisions_storeCollision:
  "set (othersAt (frameCollisions (snd (storeCollision e oth st))) g) =
     set (othersAt (frameCollisions st) g) \<union> (if g = getGuid e then {oth} else {})"
  by (auto simp add: storeCollision_def Let_def others_entry_or_new othersAt_update)

lemma fired_storeCollision: "fired (snd (storeCollision e oth st)) = fired st"
  by (simp add: storeCollision_def Let_def)

lemma fire_fields [simp]:
  "collisions (fire e name p st) = collisions st"
  "frameCollisions (fire e name p st) = frameCollisions st"
  "fired (fire e name p st) = fired st @ [Fire e name p]"
  by (simp_all add: fire_def)

lemma triggerSide_registries:
  "collisions (triggerSide env e oth fl st) = collisions (snd (storeCollision e oth st))"
  "frameCollisions (triggerSide env e oth fl st) = frameCollisions (snd (storeCollision e oth st))"
  by (simp_all add: triggerSide_def split_beta)

lemma triggerSide_collisions:
  "set (othersAt (collisions (triggerSide env e oth fl st)) g) =
     set (othersAt (collisions st) g) \<union> (if g = getGuid e then {oth} else {})"
  by (simp only: triggerSide_registries collisions_storeCollision)

lemma triggerSide_frame:
  "set (othersAt (frameCollisions (triggerSide env e oth fl st)) g) =
     set (othersAt (frameCollisions st) g) \<union> (if g = getGuid e then {oth} else {})"
  by (simp only: triggerSide_registries frameCollisions_storeCollision)

lemma triggerSide_fired:
  "fired (triggerSide env e oth fl st) =
     fired st @
       (if oth \<notin> set (othersAt (collisions st) (getGuid e)) \<and> collision (env e) \<noteq> None
           \<and> \<not> noResponse fl
        then [Fire e ''triggerenter'' (Other oth)] else [])"
  using fst_storeCollision [of e oth st] fired_storeCollision [of e oth st]
  by (simp add: triggerSide_def split_beta)

lemma storeCollision_fire:
  "collisions (snd (storeCollision e oth (fire e' name p st))) =
     collisions (snd (storeCollision e oth st))"
  "frameCollisions (snd (storeCollision e oth (fire e' name p st))) =
     frameCollisions (snd (storeCollision e oth st))"
  "fst (storeCollision e oth (fire e' name p st)) = fst (storeCollision e oth st)"
  "fired (snd (storeCollision e oth (fire e' name p st))) = fired st @ [Fire e' name p]"
  by (simp_all add: storeCollision_def Let_def fire_def)

lemma collisionSide_registries:
  "collisions (collisionSide env e oth cs st) = collisions (snd (storeCollision e oth st))"
  "frameCollisions (collisionSide env e oth cs st) = frameCollisions (snd (storeCollision e oth st))"
  by (simp_all add: collisionSide_def split_beta Let_def storeCollision_fire)

lemma collisionSide_collisions:
  "set (othersAt (collisions (collisionSide env e oth cs st)) g) =
     set (othersAt (collisions st) g) \<union> (if g = getGuid e then {oth} else {})"
  by (simp only: collisionSide_registries collisions_storeCollision)

lemma collisionSide_frame:
  "set (othersAt (frameCollisions (collisionSide env e oth cs st)) g) =
     set (othersAt (frameCollisions st) g) \<union> (if g = getGuid e then {oth} else {})"
  by (simp only: collisionSide_registries frameCollisions_storeCollision)

lemma collisionSide_fired:
  "fired (collisionSide env e oth cs st) =
     fired st @
       (if collision (env e) \<noteq> None then [Fire e ''contact'' (Contacts (createContactResult oth cs))]
        else []) @
       (if oth \<notin> set (othersAt (collisions st) (getGuid e)) \<and> collision (env e) \<noteq> None
        then [Fire e ''collisionstart'' (Contacts (createContactResult oth cs))] else [])"
  using fst_storeCollision [of e oth st] fired_storeCollision [of e oth st]
  by (simp add: collisionSide_def split_beta Let_def storeCollision_fire)

lemma contactLoop_eq:
  "contactLoop ev glob e0 e1 ps fwd rv st =
     (fwd @ (if ev then map (createContactPointFromAmmo ContactPoint_new) ps else []),
      rv @ (if ev then map (createReverseContactPointFromAmmo ContactPoint_new) ps else []),
      st \<lparr> fired := fired st @ globalContacts glob e0 e1 ps \<rparr>)"
  by (induction ps arbitrary: fwd rv st)
     (simp_all add: Let_def fireSystem_def globalContacts_def split_beta)

lemma processManifold_Inr_cases:
  assumes "processManifold env glob m st = Inr st'"
  obtains
    (skip) "st' = st" "registered env m = []"
  | (trigger) e0 e1 c0 c1 where
      "body_entity (body0 m) = Some e0" "body_entity (body1 m) = Some e1"
      "getNumContacts m > 0" "collision (env e0) = Some c0" "collision (env e1) = Some c1"
      "triggerPath m"
      "st' = (if triggerEvents c1 then triggerSide env e1 e0 (collisionFlags (body0 m)) else id)
               ((if triggerEvents c0 then triggerSide env e0 e1 (collisionFlags (body1 m)) else id)
                  st)"
  | (collide) e0 e1 c0 c1 where
      "body_entity (body0 m) = Some e0" "body_entity (body1 m) = Some e1"
      "getNumContacts m > 0" "collision (env e0) = Some c0" "collision (env e1) = Some c1"
      "\<not> triggerPath m"
      "st' = (if collisionEvents c1
              then collisionSide env e1 e0
                     (map (createReverseContactPointFromAmmo ContactPoint_new) (contactPoints m))
              else id)
               ((if collisionEvents c0
                 then collisionSide env e0 e1
                        (map (createContactPointFromAmmo ContactPoint_new) (contactPoints m))
                 else id)
                  (st \<lparr> fired := fired st @ globalContacts glob e0 e1 (contactPoints m) \<rparr>))"
proof (cases "body_entity (body0 m)")
  case None
  with assms have "st' = st" "registered env m = []"
    by (simp_all add: processManifold_def registered_def)
  then show ?thesis by (rule skip)
next
  case e0: (Some e0)
  show ?thesis
  proof (cases "body_entity (body1 m)")
    case None
    with assms e0 have "st' = st" "registered env m = []"
      by (simp_all add: processManifold_def registered_def)
    then show ?thesis by (rule skip)
  next
    case e1: (Some e1)
    show ?thesis
    proof (cases "getNumContacts m > 0")
      case False
      with assms e0 e1 have "st' = st" "registered env m = []"
        by (simp_all add: processManifold_def registered_def)
      then show ?thesis by (rule skip)
    next
      case n: True
      from assms e0 e1 n obtain c0 where c0: "collision (env e0) = Some c0"
        by (cases "collision (env e0)") (simp_all add: processManifold_def Let_def split: if_splits)
      from assms e0 e1 n c0 obtain c1 where c1: "collision (env e1) = Some c1"
        by (cases "collision (env e1)") (simp_all add: processManifold_def Let_def split: if_splits)
      show ?thesis
      proof (cases "triggerPath m")
        case True
        with assms e0 e1 n c0 c1
        have "st' = (if triggerEvents c1 then triggerSide env e1 e0 (collisionFlags (body0 m)) else id)
               ((if triggerEvents c0 then triggerSide env e0 e1 (collisionFlags (body1 m)) else id)
                  st)"
          by (auto simp add: processManifold_def Let_def triggerPath_def)
        with e0 e1 n c0 c1 True show ?thesis by (rule trigger)
      next
        case False
        with assms e0 e1 n c0 c1
        have "st' = (if collisionEvents c1
              then collisionSide env e1 e0
                     (map (createReverseContactPointFromAmmo ContactPoint_new) (contactPoints m))
              else id)
               ((if collisionEvents c0
                 then collisionSide env e0 e1
                        (map (createContactPointFromAmmo ContactPoint_new) (contactPoints m))
                 else id)
                  (st \<lparr> fired := fired st @ globalContacts glob e0 e1 (contactPoints m) \<rparr>))"
          by (auto simp add: processManifold_def Let_def triggerPath_def contactLoop_eq
                globalContacts_def split: if_splits)
        with e0 e1 n c0 c1 False show ?thesis by (rule collide)
      qed
    qed
  qed
qed

lemma countStart_simps [simp]:
  "countStart a b [] = 0"
  "countStart a b (xs @ ys) = countStart a b xs + countStart a b ys"
  "countStart a b (ev # xs) = (if isStart a b ev then 1 else 0) + countStart a b xs"
  by (simp_all add: countStart_def)

lemma countStart_globalContacts [simp]: "countStart a b (globalContacts glob e0 e1 ps) = 0"
  by (induction ps) (auto simp add: globalContacts_def)

lemma count_list_globalContacts [simp]:
  "count_list (globalContacts glob e0 e1 ps) (Fire e name p) = 0"
  by (induction ps) (auto simp add: globalContacts_def)

lemma registered_trigger:
  assumes "body_entity (body0 m) = Some e0" "body_entity (body1 m) = Some e1"
      "getNumContacts m > 0" "collision (env e0) = Some c0" "collision (env e1) = Some c1"
      "triggerPath m"
  shows "registered env m =
     (if triggerEvents c0 then [(e0, e1)] else []) @ (if triggerEvents c1 then [(e1, e0)] else [])"
  using assms by (simp add: registered_def listening_def)

lemma registered_collide:
  assumes "body_entity (body0 m) = Some e0" "body_entity (body1 m) = Some e1"
      "getNumContacts m > 0" "collision (env e0) = Some c0" "collision (env e1) = Some c1"
      "\<not> triggerPath m"
  shows "registered env m =
     (if collisionEvents c0 then [(e0, e1)] else []) @ (if collisionEvents c1 then [(e1, e0)] else [])"
  using assms by (simp add: registered_def listening_def)

lemma processManifold_collisions:
  assumes "processManifold env glob m st = Inr st'"
  shows "set (othersAt (collisions st') g) =
           set (othersAt (collisions st) g) \<union>
             {oth. \<exists>e. (e, oth) \<in> set (registered env m) \<and> getGuid e = g}"
  using assms
proof (cases rule: processManifold_Inr_cases)
  case skip
  then show ?thesis by simp
next
  case (trigger e0 e1 c0 c1)
  then show ?thesis
    by (auto simp add: registered_trigger triggerSide_collisions)
next
  case (collide e0 e1 c0 c1)
  then show ?thesis
    by (auto simp add: registered_collide collisionSide_collisions)
qed

lemma processManifold_frame:
  assumes "processManifold env glob m st = Inr st'"
  shows "set (othersAt (frameCollisions st') g) =
           set (othersAt (frameCollisions st) g) \<union>
             {oth. \<exists>e. (e, oth) \<in> set (registered env m) \<and> getGuid e = g}"
  using assms
proof (cases rule: processManifold_Inr_cases)
  case skip
  then show ?thesis by simp
next
  case (trigger e0 e1 c0 c1)
  then show ?thesis
    by (auto simp add: registered_trigger triggerSide_frame)
next
  case (collide e0 e1 c0 c1)
  then show ?thesis
    by (auto simp add: registered_collide collisionSide_frame)
qed

lemma collisionSide_countStart:
  "countStart a b (fired (collisionSide env e oth cs st)) =
     countStart a b (fired st) +
       (if e = a \<and> oth = b \<and> b \<notin> set (othersAt (collisions st) (getGuid a))
           \<and> collision (env e) \<noteq> None
        then 1 else 0)"
  by (auto simp add: collisionSide_fired createContactResult_def)

lemma triggerSide_countStart:
  "countStart a b (fired (triggerSide env e oth fl st)) = countStart a b (fired st)"
  by (simp add: triggerSide_fired)

lemma processManifold_countStart:
  assumes "processManifold env glob m st = Inr st'"
  shows "countStart a b (fired st') =
           countStart a b (fired st) +
             (if (a, b) \<in> set (registered env m) \<and> \<not> triggerPath m
                 \<and> b \<notin> set (othersAt (collisions st) (getGuid a))
              then 1 else 0)"
  using assms
proof (cases rule: processManifold_Inr_cases)
  case skip
  then show ?thesis by simp
next
  case (trigger e0 e1 c0 c1)
  then show ?thesis
    by (simp add: triggerSide_countStart)
next
  case (collide e0 e1 c0 c1)
  let ?st0 = "st \<lparr> fired := fired st @ globalContacts glob e0 e1 (contactPoints m) \<rparr>"
  let ?fw = "map (createContactPointFromAmmo ContactPoint_new) (contactPoints m)"
  let ?rv = "map (createReverseContactPointFromAmmo ContactPoint_new) (contactPoints m)"
  have st0: "countStart a b (fired ?st0) = countStart a b (fired st)"
    "collisions ?st0 = collisions st"
    by simp_all
  have reg: "registered env m =
     (if collisionEvents c0 then [(e0, e1)] else []) @ (if collisionEvents c1 then [(e1, e0)] else [])"
    using collide(1-6) by (rule registered_collide)
  have c: "collision (env e0) \<noteq> None" "collision (env e1) \<noteq> None"
    using collide(4,5) by simp_all
  show ?thesis
  proof (cases "collisionEvents c0"; cases "collisionEvents c1")
    assume ev: "collisionEvents c0" "collisionEvents c1"
    with collide(7) have st': "st' = collisionSide env e1 e0 ?rv (collisionSide env e0 e1 ?fw ?st0)"
      by simp
    show ?thesis
      unfolding st' collisionSide_countStart collisionSide_collisions st0 reg
      using ev c collide(6)
      by (cases "e0 = a"; cases "e1 = b"; cases "e1 = a"; cases "e0 = b"; simp)
  next
    assume ev: "collisionEvents c0" "\<not> collisionEvents c1"
    with collide(7) have st': "st' = collisionSide env e0 e1 ?fw ?st0"
      by simp
    show ?thesis
      unfolding st' collisionSide_countStart collisionSide_collisions st0 reg
      using ev c collide(6)
      by (cases "e0 = a"; cases "e1 = b"; simp)
  next
    assume ev: "\<not> collisionEvents c0" "collisionEvents c1"
    with collide(7) have st': "st' = collisionSide env e1 e0 ?rv ?st0"
      by simp
    show ?thesis
      unfolding st' collisionSide_countStart collisionSide_collisions st0 reg
      using ev c collide(6)
      by (cases "e1 = a"; cases "e0 = b"; simp)
  next
    assume ev: "\<not> collisionEvents c0" "\<not> collisionEvents c1"
    with collide(7) have st': "st' = ?st0"
      by simp
    show ?thesis
      unfolding st' st0 reg
      using ev by simp
  qed
qed

lemma countEnter_simps [simp]:
  "countEnter a b [] = 0"
  "countEnter a b (xs @ ys) = countEnter a b xs + countEnter a b ys"
  by (simp_all add: countEnter_def)

lemma triggerSide_countEnter:
  "countEnter a b (fired (triggerSide env e oth fl st)) =
     countEnter a b (fired st) +
       (if e = a \<and> oth = b \<and> b \<notin> set (othersAt (collisions st) (getGuid a))
           \<and> collision (env e) \<noteq> None \<and> \<not> noResponse fl
        then 1 else 0)"
  by (auto simp add: triggerSide_fired countEnter_def)

lemma collisionSide_count_other:
  "count_list (fired (collisionSide env e oth cs st)) (Fire a name (Other b)) =
     count_list (fired st) (Fire a name (Other b))"
  by (simp add: collisionSide_fired)



lemma processManifold_countEnter_same:
  assumes "processManifold env glob m st = Inr st'"
    and "b \<in> set (othersAt (collisions st) (getGuid a)) \<or> (a, b) \<notin> set (registered env m)
         \<or> (noResponse (collisionFlags (body0 m)) \<and> noResponse (collisionFlags (body1 m)))"
  shows "countEnter a b (fired st') = countEnter a b (fired st)"
  using assms(1)
proof (cases rule: processManifold_Inr_cases)
  case skip
  then show ?thesis by simp
next
  case (collide e0 e1 c0 c1)
  then show ?thesis
    by (simp add: collisionSide_count_other countEnter_def)
next
  case (trigger e0 e1 c0 c1)
  have reg: "registered env m =
     (if triggerEvents c0 then [(e0, e1)] else []) @ (if triggerEvents c1 then [(e1, e0)] else [])"
    using trigger(1-6) by (rule registered_trigger)
  show ?thesis
  proof (cases "triggerEvents c0"; cases "triggerEvents c1")
    assume ev: "triggerEvents c0" "triggerEvents c1"
    with trigger(7) have st': "st' = triggerSide env e1 e0 (collisionFlags (body0 m))
        (triggerSide env e0 e1 (collisionFlags (body1 m)) st)"
      by simp
    show ?thesis
      unfolding st' triggerSide_countEnter triggerSide_collisions
      using ev assms(2) unfolding reg
      by (cases "e0 = a"; cases "e1 = b"; cases "e1 = a"; cases "e0 = b"; auto)
  next
    assume ev: "triggerEvents c0" "\<not> triggerEvents c1"
    with trigger(7) have st': "st' = triggerSide env e0 e1 (collisionFlags (body1 m)) st"
      by simp
    show ?thesis
      unfolding st' triggerSide_countEnter triggerSide_collisions
      using ev assms(2) unfolding reg
      by (cases "e0 = a"; cases "e1 = b"; auto)
  next
    assume ev: "\<not> triggerEvents c0" "triggerEvents c1"
    with trigger(7) have st': "st' = triggerSide env e1 e0 (collisionFlags (body0 m)) st"
      by simp
    show ?thesis
      unfolding st' triggerSide_countEnter triggerSide_collisions
      using ev assms(2) unfolding reg
      by (cases "e1 = a"; cases "e0 = b"; auto)
  next
    assume ev: "\<not> triggerEvents c0" "\<not> triggerEvents c1"
    with trigger(7) show ?thesis
      by simp
  qed
qed

lemma registered_links:
  assumes "(e, oth) \<in> set (registered env m)"
  shows "links (getGuid e) oth m"
proof (cases "body_entity (body0 m)")
  case None
  with assms show ?thesis by (simp add: registered_def)
next
  case e0: (Some e0)
  show ?thesis
  proof (cases "body_entity (body1 m)")
    case None
    with assms e0 show ?thesis by (simp add: registered_def)
  next
    case e1: (Some e1)
    have "set (registered env m) \<subseteq> {(e0, e1), (e1, e0)}"
    proof (cases "0 < getNumContacts m")
      case False
      then show ?thesis by (simp add: registered_def e0 e1)
    next
      case True
      then show ?thesis
        by (cases "collision (env e0)"; cases "collision (env e1)")
           (auto simp add: registered_def e0 e1)
    qed
    with assms have "(e, oth) = (e0, e1) \<or> (e, oth) = (e1, e0)"
      by blast
    with e0 e1 show ?thesis
      by (auto simp add: links_def)
  qed
qed


lemma manifoldLoop_append:
  "manifoldLoop env glob (xs @ ys) st =
     (case manifoldLoop env glob xs st of
        Inl err \<Rightarrow> Inl err
      | Inr st1 \<Rightarrow> manifoldLoop env glob ys st1)"
  by (induction xs arbitrary: st) (simp_all split: sum.splits)

lemma manifoldLoop_collisions:
  "manifoldLoop env glob ms st = Inr st' \<Longrightarrow>
     set (othersAt (collisions st') g) =
       set (othersAt (collisions st) g) \<union>
         {oth. \<exists>e. (e, oth) \<in> set (concat (map (registered env) ms)) \<and> getGuid e = g}"
proof (induction ms arbitrary: st)
  case Nil
  then show ?case by simp
next
  case (Cons m ms)
  then obtain st1 where m: "processManifold env glob m st = Inr st1"
    and ms: "manifoldLoop env glob ms st1 = Inr st'"
    by (auto split: sum.splits)
  show ?case
    unfolding Cons.IH [OF ms] processManifold_collisions [OF m] by auto
qed

lemma manifoldLoop_frame:
  "manifoldLoop env glob ms st = Inr st' \<Longrightarrow>
     set (othersAt (frameCollisions st') g) =
       set (othersAt (frameCollisions st) g) \<union>
         {oth. \<exists>e. (e, oth) \<in> set (concat (map (registered env) ms)) \<and> getGuid e = g}"
proof (induction ms arbitrary: st)
  case Nil
  then show ?case by simp
next
  case (Cons m ms)
  then obtain st1 where m: "processManifold env glob m st = Inr st1"
    and ms: "manifoldLoop env glob ms st1 = Inr st'"
    by (auto split: sum.splits)
  show ?case
    unfolding Cons.IH [OF ms] processManifold_frame [OF m] by auto
qed


lemma manifoldLoop_recorded_quiet:
  "manifoldLoop env glob ms st = Inr st' \<Longrightarrow> b \<in> set (othersAt (collisions st) (getGuid a)) \<Longrightarrow>
     countStart a b (fired st') = countStart a b (fired st) \<and>
     countEnter a b (fired st') = countEnter a b (fired st)"
proof (induction ms arbitrary: st)
  case Nil
  then show ?case by simp
next
  case (Cons m ms)
  then obtain st1 where m: "processManifold env glob m st = Inr st1"
    and ms: "manifoldLoop env glob ms st1 = Inr st'"
    by (auto split: sum.splits)
  from Cons.prems(2) have b1: "b \<in> set (othersAt (collisions st1) (getGuid a))"
    unfolding processManifold_collisions [OF m] by simp
  from Cons.prems(2) have "countStart a b (fired st1) = countStart a b (fired st)"
    unfolding processManifold_countStart [OF m] by simp
  moreover from Cons.prems(2) have "countEnter a b (fired st1) = countEnter a b (fired st)"
    by (intro processManifold_countEnter_same [OF m]) simp
  ultimately show ?case
    using Cons.IH [OF ms b1] by simp
qed

lemma manifoldLoop_unlinked_quiet:
  "manifoldLoop env glob ms st = Inr st' \<Longrightarrow> \<forall>m \<in> set ms. \<not> links (getGuid a) b m \<Longrightarrow>
     countStart a b (fired st') = countStart a b (fired st) \<and>
     countEnter a b (fired st') = countEnter a b (fired st) \<and>
     (b \<in> set (othersAt (collisions st') (getGuid a)) \<longleftrightarrow>
        b \<in> set (othersAt (collisions st) (getGuid a))) \<and>
     (b \<in> set (othersAt (frameCollisions st') (getGuid a)) \<longleftrightarrow>
        b \<in> set (othersAt (frameCollisions st) (getGuid a)))"
proof (induction ms arbitrary: st)
  case Nil
  then show ?case by simp
next
  case (Cons m ms)
  then obtain st1 where m: "processManifold env glob m st = Inr st1"
    and ms: "manifoldLoop env glob ms st1 = Inr st'"
    by (auto split: sum.splits)
  from Cons.prems(2) have nl: "\<not> links (getGuid a) b m" and rest: "\<forall>m \<in> set ms. \<not> links (getGuid a) b m"
    by simp_all
  from nl have nr: "\<And>e. getGuid e = getGuid a \<Longrightarrow> (e, b) \<notin> set (registered env m)"
    using registered_links [of _ b env m] by metis
  then have nra: "(a, b) \<notin> set (registered env m)" by simp
  have "countStart a b (fired st1) = countStart a b (fired st)"
    unfolding processManifold_countStart [OF m] using nra by simp
  moreover have "countEnter a b (fired st1) = countEnter a b (fired st)"
    using nra by (intro processManifold_countEnter_same [OF m]) simp
  moreover have "b \<in> set (othersAt (collisions st1) (getGuid a)) \<longleftrightarrow>
        b \<in> set (othersAt (collisions st) (getGuid a))"
    unfolding processManifold_collisions [OF m] using nr by auto
  moreover have "b \<in> set (othersAt (frameCollisions st1) (getGuid a)) \<longleftrightarrow>
        b \<in> set (othersAt (frameCollisions st) (getGuid a))"
    unfolding processManifold_frame [OF m] using nr by auto
  ultimately show ?case
    using Cons.IH [OF ms rest] by simp
qed

subsection \<open>Reconciliation\<close>

lemma ended_iff:
  "(case map_of freg g of None \<Rightarrow> True | Some fen \<Rightarrow> oth \<notin> set (others fen)) =
     (oth \<notin> set (othersAt freg g))"
  by (simp add: othersAt_def split: option.splits)

lemma cleanOthers_take:
  "i \<le> length os \<Longrightarrow>
     cleanOthers env freg g ent i os evs =
       (filter (\<lambda>x. x \<in> set (othersAt freg g)) (take i os) @ drop i os,
        evs @ concat (map (endEvents env ent)
                 (rev (filter (\<lambda>x. x \<notin> set (othersAt freg g)) (take i os)))))"
proof (induction i arbitrary: os evs)
  case 0
  then show ?case by simp
next
  case (Suc i)
  then have lt: "i < length os" by simp
  have tk: "take (Suc i) os = take i os @ [os ! i]"
    using lt by (simp add: take_Suc_conv_app_nth)
  show ?case
  proof (cases "os ! i \<in> set (othersAt freg g)")
    case True
    then show ?thesis
      using Suc.IH [of os evs] lt
      by (simp add: ended_iff tk Let_def Cons_nth_drop_Suc)
  next
    case False
    let ?os = "take i os @ drop (Suc i) os"
    have len: "i \<le> length ?os" using lt by simp
    have t: "take i ?os = take i os" "drop i ?os = drop (Suc i) os"
      using lt by simp_all
    have "cleanOthers env freg g ent i ?os (evs @ endEvents env ent (os ! i)) =
       (filter (\<lambda>x. x \<in> set (othersAt freg g)) (take i os) @ drop (Suc i) os,
        (evs @ endEvents env ent (os ! i)) @ concat (map (endEvents env ent)
                 (rev (filter (\<lambda>x. x \<notin> set (othersAt freg g)) (take i os)))))"
      using Suc.IH [OF len, of "evs @ endEvents env ent (os ! i)"] by (simp only: t)
    then show ?thesis
      using False by (simp add: ended_iff tk Let_def)
  qed
qed

lemma cleanOthers_eq:
  "cleanOthers env freg g ent (length os) os evs =
     (filter (\<lambda>x. x \<in> set (othersAt freg g)) os,
      evs @ concat (map (endEvents env ent) (rev (filter (\<lambda>x. x \<notin> set (othersAt freg g)) os))))"
  using cleanOthers_take [of "length os" os env freg g ent evs] by simp

lemma count_endEvents:
  "count_list (endEvents env ent x) (Fire a name (Other b)) =
     (if ent = a \<and> x = b \<and> endsWith env a b name then 1 else 0)"
  by (cases "ent = a"; cases "x = b") (auto simp add: endEvents_def endsWith_def)

lemma count_concat_endEvents:
  "count_list (concat (map (endEvents env ent) xs)) (Fire a name (Other b)) =
     (if ent = a \<and> endsWith env a b name then count_list xs b else 0)"
  by (induction xs) (simp_all add: count_endEvents)

lemma countStart_endEvents [simp]: "countStart a b (concat (map (endEvents env ent) xs)) = 0"
  by (induction xs) (simp_all add: endEvents_def)

lemma countEnter_endEvents [simp]: "countEnter a b (concat (map (endEvents env ent) xs)) = 0"
  by (simp add: countEnter_def count_concat_endEvents endsWith_def)

lemma cleanGuid_frame [simp]: "frameCollisions (cleanGuid env g st) = frameCollisions st"
  by (simp add: cleanGuid_def cleanOthers_eq split: option.splits)

lemma cleanGuid_map_of:
  "map_of (collisions (cleanGuid env g st)) g' =
     (if g' = g then
        (case map_of (collisions st) g of
           None \<Rightarrow> None
         | Some en \<Rightarrow>
             (if filter (\<lambda>x. x \<in> set (othersAt (frameCollisions st) g)) (others en) = [] then None
              else Some (en \<lparr> others :=
                     filter (\<lambda>x. x \<in> set (othersAt (frameCollisions st) g)) (others en) \<rparr>)))
      else map_of (collisions st) g')"
  by (simp add: cleanGuid_def cleanOthers_eq update_conv' delete_conv' split: option.splits)

lemma cleanGuid_othersAt:
  "othersAt (collisions (cleanGuid env g st)) g' =
     (if g' = g
      then filter (\<lambda>x. x \<in> set (othersAt (frameCollisions st) g)) (othersAt (collisions st) g)
      else othersAt (collisions st) g')"
  by (simp add: othersAt_def cleanGuid_map_of split: option.splits)

lemma cleanGuid_fired:
  "fired (cleanGuid env g st) =
     fired st @
       (case map_of (collisions st) g of
          None \<Rightarrow> []
        | Some en \<Rightarrow>
            concat (map (endEvents env (entity en))
              (rev (filter (\<lambda>x. x \<notin> set (othersAt (frameCollisions st) g)) (others en)))))"
  by (simp add: cleanGuid_def cleanOthers_eq split: option.splits)

lemma keys_subset:
  "set (map fst (AList.delete g al)) \<subseteq> set (map fst al)"
  "g \<in> set (map fst al) \<Longrightarrow> set (map fst (AList.update g v al)) \<subseteq> set (map fst al)"
  unfolding delete_keys update_keys by auto

lemma cleanGuid_keys:
  "set (map fst (collisions (cleanGuid env g st))) \<subseteq> set (map fst (collisions st))"
  "distinct (map fst (collisions st)) \<Longrightarrow> distinct (map fst (collisions (cleanGuid env g st)))"
proof -
  show "set (map fst (collisions (cleanGuid env g st))) \<subseteq> set (map fst (collisions st))"
  proof (cases "map_of (collisions st) g")
    case None
    then show ?thesis by (simp add: cleanGuid_def)
  next
    case (Some en)
    then have "g \<in> set (map fst (collisions st))"
      by (metis map_of_eq_None_iff option.distinct(1) set_map)
    with Some show ?thesis
      using keys_subset [of g "collisions st"]
      by (simp add: cleanGuid_def cleanOthers_eq del: set_map)
  qed
  show "distinct (map fst (collisions (cleanGuid env g st)))" if "distinct (map fst (collisions st))"
    using that
    by (cases "map_of (collisions st) g")
       (simp_all add: cleanGuid_def cleanOthers_eq distinct_update distinct_delete)
qed

lemma cleanFold_frame [simp]: "frameCollisions (fold (cleanGuid env) ks st) = frameCollisions st"
  by (induction ks arbitrary: st) simp_all

lemma cleanFold_othersAt:
  "othersAt (collisions (fold (cleanGuid env) ks st)) g =
     (if g \<in> set ks
      then filter (\<lambda>x. x \<in> set (othersAt (frameCollisions st) g)) (othersAt (collisions st) g)
      else othersAt (collisions st) g)"
  by (induction ks arbitrary: st) (auto simp add: cleanGuid_othersAt)

lemma othersAt_no_key: "g \<notin> set (map fst reg) \<Longrightarrow> othersAt reg g = []"
  by (simp add: othersAt_def map_of_eq_None_iff [THEN iffD2])

lemma cleanOldCollisions_othersAt:
  "othersAt (collisions (cleanOldCollisions env st)) g =
     filter (\<lambda>x. x \<in> set (othersAt (frameCollisions st) g)) (othersAt (collisions st) g)"
  using othersAt_no_key [of g "collisions st"]
  by (auto simp add: cleanOldCollisions_def cleanFold_othersAt)

lemma cleanOldCollisions_frame [simp]:
  "frameCollisions (cleanOldCollisions env st) = frameCollisions st"
  by (simp add: cleanOldCollisions_def)

lemma wfRegistry_iff:
  "wfRegistry reg \<longleftrightarrow>
     distinct (map fst reg) \<and>
     (\<forall>g en. map_of reg g = Some en \<longrightarrow>
        getGuid (entity en) = g \<and> distinct (others en) \<and> others en \<noteq> [])"
  by (auto simp add: wfRegistry_def dest: map_of_SomeD)

lemma wfRegistry_Nil [simp]: "wfRegistry []"
  by (simp add: wfRegistry_def)






lemma wfRegistry_cleanGuid:
  assumes "wfRegistry (collisions st)"
  shows "wfRegistry (collisions (cleanGuid env g st))"
proof -
  have "distinct (map fst (collisions (cleanGuid env g st)))"
    using assms by (simp add: wfRegistry_iff cleanGuid_keys)
  moreover have "getGuid (entity en) = g' \<and> distinct (others en) \<and> others en \<noteq> []"
    if "map_of (collisions (cleanGuid env g st)) g' = Some en" for g' en
    using that assms
    by (auto simp add: cleanGuid_map_of wfRegistry_iff split: if_splits option.splits)
  ultimately show ?thesis
    unfolding wfRegistry_iff by blast
qed




lemma wfRegistry_initial: "wfRegistry (collisions initial)"
  by (simp add: initial_def)

lemma cleanGuid_count:
  "count_list (fired (cleanGuid env g st)) (Fire a name (Other b)) =
     count_list (fired st) (Fire a name (Other b)) +
       (case map_of (collisions st) g of
          None \<Rightarrow> 0
        | Some en \<Rightarrow>
            if entity en = a \<and> endsWith env a b name
            then count_list
                   (filter (\<lambda>x. x \<notin> set (othersAt (frameCollisions st) g)) (others en)) b
            else 0)"
  by (simp add: cleanGuid_fired count_concat_endEvents split: option.splits)

lemma cleanFold_count:
  "wfRegistry (collisions st) \<Longrightarrow> distinct ks \<Longrightarrow>
     count_list (fired (fold (cleanGuid env) ks st)) (Fire a name (Other b)) =
       count_list (fired st) (Fire a name (Other b)) +
         (if getGuid a \<in> set ks then endCount env st a b name else 0)"
proof (induction ks arbitrary: st)
  case Nil
  then show ?case by simp
next
  case (Cons k ks)
  let ?st1 = "cleanGuid env k st"
  have wf1: "wfRegistry (collisions ?st1)"
    using Cons.prems(1) by (rule wfRegistry_cleanGuid)
  have d: "distinct ks" "k \<notin> set ks"
    using Cons.prems(2) by simp_all
  have ih: "count_list (fired (fold (cleanGuid env) ks ?st1)) (Fire a name (Other b)) =
       count_list (fired ?st1) (Fire a name (Other b)) +
         (if getGuid a \<in> set ks then endCount env ?st1 a b name else 0)"
    using Cons.IH [OF wf1 d(1)] .
  show ?case
  proof (cases "k = getGuid a")
    case True
    with d(2) have "getGuid a \<notin> set ks" by simp
    with True ih show ?thesis
      by (simp add: cleanGuid_count endCount_def)
  next
    case False
    have "count_list (fired ?st1) (Fire a name (Other b)) = count_list (fired st) (Fire a name (Other b))"
      using Cons.prems(1) False
      by (auto simp add: cleanGuid_count wfRegistry_iff split: option.splits)
    moreover have "endCount env ?st1 a b name = endCount env st a b name"
      using False by (simp add: endCount_def cleanGuid_map_of split: option.splits)
    ultimately show ?thesis
      using ih False by simp
  qed
qed

lemma map_of_keys: "map_of reg g = Some en \<Longrightarrow> g \<in> set (map fst reg)"
  by (metis map_of_eq_None_iff option.distinct(1) set_map)

lemma cleanOldCollisions_count:
  assumes "wfRegistry (collisions st)"
  shows "count_list (fired (cleanOldCollisions env st)) (Fire a name (Other b)) =
           count_list (fired st) (Fire a name (Other b)) + endCount env st a b name"
proof -
  have "getGuid a \<notin> set (map fst (collisions st)) \<Longrightarrow> endCount env st a b name = 0"
    using map_of_keys [of "collisions st" "getGuid a"]
    by (auto simp add: endCount_def split: option.splits)
  with assms show ?thesis
    unfolding cleanOldCollisions_def
    by (subst cleanFold_count) (auto simp add: wfRegistry_iff)
qed

lemma count_list_filter_distinct:
  "distinct xs \<Longrightarrow> count_list (filter P xs) b = (if b \<in> set xs \<and> P b then 1 else 0)"
  by (induction xs) auto

lemma endCount_ended:
  assumes "wfRegistry (collisions st)"
    and "map_of (collisions st) (getGuid a) = Some en" and "entity en = a"
    and "b \<in> set (others en)" and "b \<notin> set (othersAt (frameCollisions st) (getGuid a))"
  shows "endCount env st a b name = (if endsWith env a b name then 1 else 0)"
proof -
  from assms(1,2) have "distinct (others en)"
    by (simp add: wfRegistry_iff)
  then have "count_list (filter (\<lambda>x. x \<notin> set (othersAt (frameCollisions st) (getGuid a))) (others en)) b = 1"
    using assms(4,5) by (simp add: count_list_filter_distinct)
  with assms(2,3) show ?thesis
    by (simp add: endCount_def)
qed

lemma fired_cleanFold_starts:
  "countStart a b (fired (fold (cleanGuid env) ks st)) = countStart a b (fired st) \<and>
   countEnter a b (fired (fold (cleanGuid env) ks st)) = countEnter a b (fired st)"
  by (induction ks arbitrary: st) (simp_all add: cleanGuid_fired split: option.splits)

lemma cleanOldCollisions_quiet:
  "countStart a b (fired (cleanOldCollisions env st)) = countStart a b (fired st)"
  "countEnter a b (fired (cleanOldCollisions env st)) = countEnter a b (fired st)"
  by (simp_all add: cleanOldCollisions_def fired_cleanFold_starts)

subsection \<open>Whole steps\<close>

lemma onUpdate_Inr:
  assumes "onUpdate fr st = Inr st'"
  obtains st1 where
    "manifoldLoop (ents fr) (globalContact fr) (manifolds fr) (st \<lparr> frameCollisions := [] \<rparr>) = Inr st1"
    "st' = cleanOldCollisions (ents fr) st1"
  using assms by (auto simp add: onUpdate_def split: sum.splits)

lemma othersAt_Nil [simp]: "othersAt [] g = []"
  by (simp add: othersAt_def)

lemma onUpdate_collisions:
  assumes "onUpdate fr st = Inr st'"
  shows "set (othersAt (collisions st') g) =
           {oth. \<exists>e. (e, oth) \<in> set (concat (map (registered (ents fr)) (manifolds fr)))
                   \<and> getGuid e = g}"
  using assms
proof (cases rule: onUpdate_Inr)
  case (1 st1)
  show ?thesis
    unfolding 1(2) cleanOldCollisions_othersAt
    using manifoldLoop_collisions [OF 1(1), of g] manifoldLoop_frame [OF 1(1), of g]
    by auto
qed

lemma onUpdate_recorded_quiet:
  assumes "onUpdate fr st = Inr st'" and "recorded (collisions st) a b"
  shows "countStart a b (fired st') = countStart a b (fired st) \<and>
         countEnter a b (fired st') = countEnter a b (fired st)"
  using assms(1)
proof (cases rule: onUpdate_Inr)
  case (1 st1)
  from assms(2) have "b \<in> set (othersAt (collisions (st \<lparr> frameCollisions := [] \<rparr>)) (getGuid a))"
    by (simp add: recorded_def)
  from manifoldLoop_recorded_quiet [OF 1(1) this]
  show ?thesis
    unfolding 1(2) by (simp add: cleanOldCollisions_quiet)
qed

lemma onUpdate_keeps_recorded:
  assumes "onUpdate fr st = Inr st'" and "m \<in> set (manifolds fr)"
    and "(a, b) \<in> set (registered (ents fr) m)"
  shows "recorded (collisions st') a b"
  unfolding recorded_def onUpdate_collisions [OF assms(1)]
  using assms(2,3) by auto

lemma onUpdates_recorded_quiet:
  "onUpdates frs st = Inr st' \<Longrightarrow> recorded (collisions st) a b \<Longrightarrow>
   \<forall>fr \<in> set frs. \<exists>m \<in> set (manifolds fr). (a, b) \<in> set (registered (ents fr) m) \<Longrightarrow>
     countStart a b (fired st') = countStart a b (fired st) \<and>
     countEnter a b (fired st') = countEnter a b (fired st) \<and>
     recorded (collisions st') a b"
proof (induction frs arbitrary: st)
  case Nil
  then show ?case by simp
next
  case (Cons fr frs)
  then obtain st1 where fr: "onUpdate fr st = Inr st1" and frs: "onUpdates frs st1 = Inr st'"
    by (auto split: sum.splits)
  from Cons.prems(3) obtain m where "m \<in> set (manifolds fr)" "(a, b) \<in> set (registered (ents fr) m)"
    by auto
  then have r1: "recorded (collisions st1) a b"
    by (rule onUpdate_keeps_recorded [OF fr])
  from Cons.prems(3) have rest:
    "\<forall>fr \<in> set frs. \<exists>m \<in> set (manifolds fr). (a, b) \<in> set (registered (ents fr) m)"
    by simp
  show ?case
    using Cons.IH [OF frs r1 rest] onUpdate_recorded_quiet [OF fr Cons.prems(2)] by simp
qed

lemma processManifold_no_contacts:
  "getNumContacts m = 0 \<Longrightarrow> processManifold env glob m st = Inr st"
  by (simp add: processManifold_def split: option.splits)

lemma processManifold_Inr_collision:
  assumes "processManifold env glob m st = Inr st'"
    and "body_entity (body0 m) = Some e0" "body_entity (body1 m) = Some e1"
    and "0 < getNumContacts m"
  shows "collision (env e0) \<noteq> None \<and> collision (env e1) \<noteq> None"
proof (rule ccontr)
  assume "\<not> ?thesis"
  then have "collision (env e0) = None \<or> collision (env e1) = None" by simp
  with assms(2-4) have "\<exists>x. processManifold env glob m st = Inl x"
    by (cases "collision (env e0)") (auto simp add: processManifold_def Let_def)
  with assms(1) show False by auto
qed

lemma manifoldLoop_Inr_collision:
  "manifoldLoop env glob ms st = Inr st' \<Longrightarrow> m \<in> set ms \<Longrightarrow>
   body_entity (body0 m) = Some e0 \<Longrightarrow> body_entity (body1 m) = Some e1 \<Longrightarrow>
   0 < getNumContacts m \<Longrightarrow>
     collision (env e0) \<noteq> None \<and> collision (env e1) \<noteq> None"
proof (induction ms arbitrary: st)
  case Nil
  then show ?case by simp
next
  case (Cons x ms)
  then obtain st1 where x: "processManifold env glob x st = Inr st1"
    and ms: "manifoldLoop env glob ms st1 = Inr st'"
    by (auto split: sum.splits)
  show ?case
  proof (cases "m = x")
    case True
    with x Cons.prems(3-5) show ?thesis
      by (intro processManifold_Inr_collision [of env glob m st st1]) simp_all
  next
    case False
    with Cons.prems(2) have "m \<in> set ms" by simp
    from Cons.IH [OF ms this Cons.prems(3-5)] show ?thesis .
  qed
qed

lemma manifoldLoop_first_start:
  assumes "manifoldLoop env glob (pre @ m # post) st = Inr st'"
    and "\<forall>m' \<in> set pre. \<not> links (getGuid a) b m'"
    and "(a, b) \<in> set (registered env m)" and "\<not> triggerPath m"
    and "b \<notin> set (othersAt (collisions st) (getGuid a))"
  shows "countStart a b (fired st') = countStart a b (fired st) + 1"
proof -
  from assms(1) obtain st1 st2 where
    pre: "manifoldLoop env glob pre st = Inr st1"
    and m: "processManifold env glob m st1 = Inr st2"
    and post: "manifoldLoop env glob post st2 = Inr st'"
    by (auto simp add: manifoldLoop_append split: sum.splits)
  from manifoldLoop_unlinked_quiet [OF pre assms(2)] assms(5)
  have 1: "countStart a b (fired st1) = countStart a b (fired st)"
    and n1: "b \<notin> set (othersAt (collisions st1) (getGuid a))"
    by simp_all
  have 2: "countStart a b (fired st2) = countStart a b (fired st1) + 1"
    unfolding processManifold_countStart [OF m] using assms(3,4) n1 by simp
  have "b \<in> set (othersAt (collisions st2) (getGuid a))"
    unfolding processManifold_collisions [OF m] using assms(3) by auto
  from manifoldLoop_recorded_quiet [OF post this] 1 2 show ?thesis
    by simp
qed

lemma manifoldLoop_first_suppressed:
  assumes "manifoldLoop env glob (pre @ m # post) st = Inr st'"
    and "\<forall>m' \<in> set pre. \<not> links (getGuid a) b m'"
    and "(a, b) \<in> set (registered env m)"
    and "noResponse (collisionFlags (body0 m))" "noResponse (collisionFlags (body1 m))"
  shows "countEnter a b (fired st') = countEnter a b (fired st)"
proof -
  from assms(1) obtain st1 st2 where
    pre: "manifoldLoop env glob pre st = Inr st1"
    and m: "processManifold env glob m st1 = Inr st2"
    and post: "manifoldLoop env glob post st2 = Inr st'"
    by (auto simp add: manifoldLoop_append split: sum.splits)
  from manifoldLoop_unlinked_quiet [OF pre assms(2)]
  have 1: "countEnter a b (fired st1) = countEnter a b (fired st)"
    by simp
  have 2: "countEnter a b (fired st2) = countEnter a b (fired st1)"
    using assms(4,5) by (intro processManifold_countEnter_same [OF m]) simp
  have "b \<in> set (othersAt (collisions st2) (getGuid a))"
    unfolding processManifold_collisions [OF m] using assms(3) by auto
  from manifoldLoop_recorded_quiet [OF post this] 1 2 show ?thesis
    by simp
qed







subsection \<open>Handlers that act on entities\<close>





lemma countStart_contactFired [simp]: "countStart a b (contactFired world e oth cs st) = 0"
  by (simp add: contactFired_def)


























subsection \<open>Reconciliation with handlers that act on entities\<close>

lemma countStart_endEvents_live [simp]:
  "countStart a b (endEvents_live world log ec ent oth) = 0"
  by (simp add: endEvents_live_def)

lemma cleanOthers_live_take:
  "i \<le> length os \<Longrightarrow>
     fst (cleanOthers_live world freg g ent ec i os log) =
       filter (\<lambda>x. x \<in> set (othersAt freg g)) (take i os) @ drop i os \<and>
     countStart a b (snd (cleanOthers_live world freg g ent ec i os log)) = countStart a b log"
proof (induction i arbitrary: os log)
  case 0
  then show ?case by simp
next
  case (Suc i)
  then have lt: "i < length os" by simp
  have tk: "take (Suc i) os = take i os @ [os ! i]"
    using lt by (simp add: take_Suc_conv_app_nth)
  show ?case
  proof (cases "os ! i \<in> set (othersAt freg g)")
    case True
    then show ?thesis
      using Suc.IH [of os log] lt
      by (simp add: ended_iff tk Let_def Cons_nth_drop_Suc)
  next
    case False
    let ?os = "take i os @ drop (Suc i) os"
    let ?log = "log @ endEvents_live world log ec ent (os ! i)"
    have len: "i \<le> length ?os" using lt by simp
    have t: "take i ?os = take i os" "drop i ?os = drop (Suc i) os"
      using lt by simp_all
    have "fst (cleanOthers_live world freg g ent ec i ?os ?log) =
       filter (\<lambda>x. x \<in> set (othersAt freg g)) (take i os) @ drop (Suc i) os \<and>
       countStart a b (snd (cleanOthers_live world freg g ent ec i ?os ?log)) = countStart a b ?log"
      using Suc.IH [OF len, of ?log] by (simp only: t)
    then show ?thesis
      using False by (simp add: ended_iff tk Let_def)
  qed
qed

lemma cleanOthers_live_eq:
  "fst (cleanOthers_live world freg g ent ec (length os) os log) =
     filter (\<lambda>x. x \<in> set (othersAt freg g)) os"
  "countStart a b (snd (cleanOthers_live world freg g ent ec (length os) os log)) =
     countStart a b log"
  using cleanOthers_live_take [of "length os" os world freg g ent ec log a b] by simp_all

lemma cleanGuid_live_frame [simp]:
  "frameCollisions (cleanGuid_live world g st) = frameCollisions st"
  by (simp add: cleanGuid_live_def split_beta Let_def split: option.splits)


lemma cleanGuid_live_countStart [simp]:
  "countStart a b (fired (cleanGuid_live world g st)) = countStart a b (fired st)"
  by (simp add: cleanGuid_live_def split_beta Let_def cleanOthers_live_eq split: option.splits)

lemma cleanFold_live_frame [simp]:
  "frameCollisions (fold (cleanGuid_live world) ks st) = frameCollisions st"
  by (induction ks arbitrary: st) simp_all

lemma cleanFold_live_countStart [simp]:
  "countStart a b (fired (fold (cleanGuid_live world) ks st)) = countStart a b (fired st)"
  by (induction ks arbitrary: st) simp_all



lemma cleanOldCollisions_live_quiet [simp]:
  "countStart a b (fired (cleanOldCollisions_live world st)) = countStart a b (fired st)"
  by (simp add: cleanOldCollisions_live_def)





subsection \<open>Whole steps with handlers that act on entities\<close>







subsection \<open>A frame is a scene whose entities never change\<close>

lemma triggerSide_live_steady: "triggerSide_live (\<lambda>log. env) = triggerSide env"
  by (intro ext) (simp add: triggerSide_live_def triggerSide_def)

lemma collisionSide_live_steady: "collisionSide_live (\<lambda>log. env) = collisionSide env"
  by (intro ext) (simp add: collisionSide_live_def collisionSide_def)

lemma processManifold_live_steady:
  "processManifold_live (\<lambda>log. env) (\<lambda>log. glob) m st = processManifold env glob m st"
  unfolding processManifold_live_def processManifold_def
    triggerSide_live_steady collisionSide_live_steady
  by (simp only: Let_def)

lemma manifoldLoop_live_steady:
  "manifoldLoop_live (\<lambda>log. env) (\<lambda>log. glob) ms st = manifoldLoop env glob ms st"
  by (induction ms arbitrary: st) (simp_all add: processManifold_live_steady split: sum.splits)

lemma endEvents_live_steady:
  "ec = (collision (env ent) \<noteq> None) \<Longrightarrow>
     endEvents_live (\<lambda>log. env) log ec ent oth = endEvents env ent oth"
  by (simp add: endEvents_live_def endEvents_def)

lemma cleanOthers_live_steady:
  "ec = (collision (env ent) \<noteq> None) \<Longrightarrow>
     cleanOthers_live (\<lambda>log. env) freg g ent ec i os log = cleanOthers env freg g ent i os log"
proof (induction i arbitrary: os log)
  case 0
  then show ?case by simp
next
  case (Suc i)
  have e: "endEvents_live (\<lambda>log. env) log ec ent (os ! i) = endEvents env ent (os ! i)"
    using Suc.prems by (rule endEvents_live_steady)
  show ?case
    by (simp only: cleanOthers_live.simps cleanOthers.simps Let_def e Suc.IH [OF Suc.prems])
qed

lemma cleanGuid_live_steady: "cleanGuid_live (\<lambda>log. env) g st = cleanGuid env g st"
proof (cases "map_of (collisions st) g")
  case None
  then show ?thesis by (simp add: cleanGuid_live_def cleanGuid_def)
next
  case (Some en)
  have "cleanOthers_live (\<lambda>log. env) (frameCollisions st) g (entity en)
          (collision (env (entity en)) \<noteq> None) (length (others en)) (others en) (fired st) =
        cleanOthers env (frameCollisions st) g (entity en) (length (others en)) (others en) (fired st)"
    by (rule cleanOthers_live_steady) simp
  then show ?thesis
    unfolding cleanGuid_live_def cleanGuid_def Some
    by (simp only: option.case Let_def cleanOthers_eq prod.case append_Nil)
qed

lemma cleanFold_live_steady:
  "fold (cleanGuid_live (\<lambda>log. env)) ks st = fold (cleanGuid env) ks st"
  by (induction ks arbitrary: st) (simp_all add: cleanGuid_live_steady)

lemma cleanOldCollisions_live_steady:
  "cleanOldCollisions_live (\<lambda>log. env) st = cleanOldCollisions env st"
  by (simp add: cleanOldCollisions_live_def cleanOldCollisions_def cleanFold_live_steady)

lemma onUpdate_live_steady: "onUpdate_live (steady fr) st = onUpdate fr st"
  by (simp add: onUpdate_live_def onUpdate_def steady_def manifoldLoop_live_steady
        cleanOldCollisions_live_steady split: sum.splits)

lemma onUpdates_live_steady: "onUpdates_live (map steady frs) st = onUpdates frs st"
  by (induction frs arbitrary: st) (simp_all add: onUpdate_live_steady split: sum.splits)

subsection \<open>The example scenes, evaluated\<close>

lemmas ex_defs = entA_def entB_def exContact_def exManifold_def exFrame_def exData_def
  exResult_def exTouching_def initial_def collideFrame_def apartFrame_def restingFrame_def
  deafFrame_def volumeFrame_def visitorFrame_def triggerFrame_def brokenFrame_def

lemmas step_defs = onUpdate_def processManifold_def getNumContacts_def noResponse_def
  BODYFLAG_NORESPONSE_OBJECT_def triggerEvents_def collisionEvents_def hasEvent_def
  contactLoop_eq globalContacts_def collisionSide_def triggerSide_def storeCollision_def
  entry_or_new_def fire_def createContactResult_def createContactPointFromAmmo_def
  createReverseContactPointFromAmmo_def ContactPoint_new_def Vec3_new_def
  cleanOldCollisions_def cleanGuid_def endEvents_def Let_def

lemmas obs_defs = registered_def listening_def triggerPath_def recorded_def othersAt_def
  links_def countStart_def countEnter_def countLeave_def countEnd_def wfRegistry_def

lemma ex_collide_first:
  "onUpdate collideFrame initial
     = Inr (exTouching [Fire entA ''contact'' (Contacts exResult),
                        Fire entA ''collisionstart'' (Contacts exResult)])"
  by (simp add: ex_defs step_defs)


lemma ex_separate:
  "onUpdate apartFrame (exTouching evs)
     = Inr \<lparr> collisions = [], frameCollisions = [],
             fired = evs @ [Fire entA ''collisionend'' (Other entB)] \<rparr>"
  by (simp add: ex_defs step_defs)

lemma ex_resting:
  "onUpdate restingFrame (exTouching evs)
     = Inr \<lparr> collisions = [], frameCollisions = [],
             fired = evs @ [Fire entA ''collisionend'' (Other entB)] \<rparr>"
  by (simp add: ex_defs step_defs)





lemma ex_trigger_enters:
  "onUpdate (triggerFrame [exManifold 4 0 [exContact]]) initial
     = Inr (exTouching [Fire entA ''triggerenter'' (Other entB)])"
  by (simp add: ex_defs step_defs)

lemma ex_triggers_overlap:
  "onUpdate (triggerFrame [exManifold 4 4 [exContact]]) initial = Inr (exTouching [])"
  "onUpdate (triggerFrame [exManifold 4 4 [exContact]]) (exTouching []) = Inr (exTouching [])"
  "onUpdate (triggerFrame [exManifold 4 0 [exContact]]) (exTouching []) = Inr (exTouching [])"
  by (simp_all add: ex_defs step_defs)

lemma ex_trigger_leaves:
  "onUpdate (triggerFrame []) (exTouching [])
     = Inr \<lparr> collisions = [], frameCollisions = [],
             fired = [Fire entA ''triggerleave'' (Other entB)] \<rparr>"
  by (simp add: ex_defs step_defs)

lemma ex_broken: "onUpdate brokenFrame initial = Inl (TypeError, initial)"
  by (simp add: ex_defs step_defs)

lemma ex_process_trigger:
  "processManifold (ents (triggerFrame [])) False (exManifold 4 0 [exContact]) initial
     = Inr (exTouching [Fire entA ''triggerenter'' (Other entB)])"
  "processManifold (ents (triggerFrame [])) False (exManifold 4 4 [exContact]) initial
     = Inr (exTouching [])"
  by (simp_all add: ex_defs step_defs)

lemmas live_defs = onUpdate_live_def processManifold_live_def collisionSide_live_def
  triggerSide_live_def cleanOldCollisions_live_def cleanGuid_live_def endEvents_live_def

lemma ex_remover:
  "onUpdate_live removerScene initial
     = Inr (exTouching [Fire entA ''contact'' (Contacts exResult)])"
  by (simp add: removerScene_def ex_defs live_defs step_defs)

lemma ex_remover_again:
  "onUpdate_live removerScene (exTouching [Fire entA ''contact'' (Contacts exResult)])
     = Inl (TypeError,
            \<lparr> collisions = [(''a'', \<lparr> others = [entB], entity = entA \<rparr>)], frameCollisions = [],
              fired = [Fire entA ''contact'' (Contacts exResult)] \<rparr>)"
  by (simp add: removerScene_def ex_defs live_defs step_defs)




section \<open>Claims\<close>

subsection \<open>Collision start\<close>




subsection \<open>Ended pairings\<close>




subsection \<open>The test for a new pairing\<close>



subsection \<open>Trigger enter and trigger leave\<close>

text \<open>
  C4. On the trigger path of a manifold that joins two different entities, each side
  gets \<open>triggerenter\<close> exactly when it has a trigger handler, the pairing was not in the
  durable registry and the body of the opposite side is not a no-response object. The
  \<open>triggerleave\<close> of the reconciliation depends only on the two entities (both have a
  collision component, they are not both rigid bodies, the owning side is a trigger):
  the reconciliation is not given the collision flags at all.
\<close>

theorem triggerenter_guarded_triggerleave_not:
  "(processManifold env glob m st = Inr st' \<and>
    body_entity (body0 m) = Some e0 \<and> body_entity (body1 m) = Some e1 \<and> e0 \<noteq> e1 \<and>
    0 < getNumContacts m \<and> triggerPath m \<and>
    collision (env e0) = Some c0 \<and> collision (env e1) = Some c1 \<longrightarrow>
      countEnter e0 e1 (fired st') = countEnter e0 e1 (fired st) +
        (if triggerEvents c0 \<and> \<not> recorded (collisions st) e0 e1
            \<and> \<not> noResponse (collisionFlags (body1 m))
         then 1 else 0) \<and>
      countEnter e1 e0 (fired st') = countEnter e1 e0 (fired st) +
        (if triggerEvents c1 \<and> \<not> recorded (collisions st) e1 e0
            \<and> \<not> noResponse (collisionFlags (body0 m))
         then 1 else 0))
   \<and> (wfRegistry (collisions s) \<and> map_of (collisions s) (getGuid a) = Some en \<and> entity en = a \<and>
       b \<in> set (others en) \<and> \<not> recorded (frameCollisions s) a b \<longrightarrow>
         countLeave a b (fired (cleanOldCollisions env' s)) = countLeave a b (fired s) +
           (if collision (env' a) \<noteq> None \<and> collision (env' b) \<noteq> None \<and>
               \<not> (rigidbody (env' a) \<and> rigidbody (env' b)) \<and> trigger (env' a)
            then 1 else 0))"
proof (intro conjI impI)
  assume h: "processManifold env glob m st = Inr st' \<and>
    body_entity (body0 m) = Some e0 \<and> body_entity (body1 m) = Some e1 \<and> e0 \<noteq> e1 \<and>
    0 < getNumContacts m \<and> triggerPath m \<and>
    collision (env e0) = Some c0 \<and> collision (env e1) = Some c1"
  then have pm: "processManifold env glob m st = Inr st'" by simp
  from h have st': "st' = (if triggerEvents c1 then triggerSide env e1 e0 (collisionFlags (body0 m)) else id)
               ((if triggerEvents c0 then triggerSide env e0 e1 (collisionFlags (body1 m)) else id)
                  st)"
    by (auto simp add: processManifold_def Let_def triggerPath_def)
  from h have ne: "e0 \<noteq> e1" "e1 \<noteq> e0" by auto
  from h have c: "collision (env e0) \<noteq> None" "collision (env e1) \<noteq> None" by auto
  show "countEnter e0 e1 (fired st') = countEnter e0 e1 (fired st) +
        (if triggerEvents c0 \<and> \<not> recorded (collisions st) e0 e1
            \<and> \<not> noResponse (collisionFlags (body1 m))
         then 1 else 0)"
    unfolding st' recorded_def using ne c
    by (cases "triggerEvents c0"; cases "triggerEvents c1")
       (simp_all add: triggerSide_countEnter triggerSide_collisions)
  show "countEnter e1 e0 (fired st') = countEnter e1 e0 (fired st) +
        (if triggerEvents c1 \<and> \<not> recorded (collisions st) e1 e0
            \<and> \<not> noResponse (collisionFlags (body0 m))
         then 1 else 0)"
    unfolding st' recorded_def using ne c
    by (cases "triggerEvents c0"; cases "triggerEvents c1")
       (simp_all add: triggerSide_countEnter triggerSide_collisions)
next
  assume h: "wfRegistry (collisions s) \<and> map_of (collisions s) (getGuid a) = Some en \<and> entity en = a \<and>
       b \<in> set (others en) \<and> \<not> recorded (frameCollisions s) a b"
  then have wf: "wfRegistry (collisions s)"
    and en: "map_of (collisions s) (getGuid a) = Some en" "entity en = a"
    and b: "b \<in> set (others en)" "b \<notin> set (othersAt (frameCollisions s) (getGuid a))"
    by (simp_all add: recorded_def)
  have "endCount env' s a b ''triggerleave'' =
      (if endsWith env' a b ''triggerleave'' then 1 else 0)"
    using wf en b by (rule endCount_ended)
  with wf show "countLeave a b (fired (cleanOldCollisions env' s)) = countLeave a b (fired s) +
           (if collision (env' a) \<noteq> None \<and> collision (env' b) \<noteq> None \<and>
               \<not> (rigidbody (env' a) \<and> rigidbody (env' b)) \<and> trigger (env' a)
            then 1 else 0)"
    unfolding countLeave_def
    by (auto simp add: cleanOldCollisions_count endsWith_def)
qed

theorem triggerenter_guarded_triggerleave_not_witness:
  "processManifold (ents (triggerFrame [])) False (exManifold 4 0 [exContact]) initial
     = Inr (exTouching [Fire entA ''triggerenter'' (Other entB)])
   \<and> countEnter entA entB [Fire entA ''triggerenter'' (Other entB) :: int event] = 1
   \<and> countEnter entB entA [Fire entA ''triggerenter'' (Other entB) :: int event] = 0
   \<and> processManifold (ents (triggerFrame [])) False (exManifold 4 4 [exContact]) initial
     = Inr (exTouching [])
   \<and> countLeave entA entB
        (fired (cleanOldCollisions (ents (triggerFrame []))
           ((exTouching []) \<lparr> frameCollisions := [] \<rparr>))) = 1"
proof -
  let ?env = "ents (triggerFrame [])"
  let ?c0 = "\<lparr> handlers = [''triggerenter'', ''triggerleave''] \<rparr>"
  let ?c1 = "\<lparr> handlers = [] \<rparr>"
  let ?m = "exManifold 4 0 [exContact]"
  let ?st' = "exTouching [Fire entA ''triggerenter'' (Other entB)]"
  let ?s = "(exTouching []) \<lparr> frameCollisions := [] \<rparr>"
  let ?en = "\<lparr> others = [entB], entity = entA \<rparr>"
  have h1: "processManifold ?env False ?m initial = Inr ?st' \<and>
    body_entity (body0 ?m) = Some entA \<and> body_entity (body1 ?m) = Some entB \<and> entA \<noteq> entB \<and>
    0 < getNumContacts ?m \<and> triggerPath ?m \<and>
    collision (?env entA) = Some ?c0 \<and> collision (?env entB) = Some ?c1"
    using ex_process_trigger(1)
    by (simp add: ex_defs getNumContacts_def triggerPath_def noResponse_def
          BODYFLAG_NORESPONSE_OBJECT_def)
  have h2: "wfRegistry (collisions ?s) \<and> map_of (collisions ?s) (getGuid entA) = Some ?en \<and>
       entity ?en = entA \<and> entB \<in> set (others ?en) \<and> \<not> recorded (frameCollisions ?s) entA entB"
    by (simp add: ex_defs wfRegistry_def recorded_def othersAt_def)
  note T = triggerenter_guarded_triggerleave_not [where env = ?env and glob = False and m = ?m
      and st = "initial :: int sys_state" and st' = ?st' and ?e0.0 = entA and ?e1.0 = entB
      and ?c0.0 = ?c0 and ?c1.0 = ?c1 and s = ?s and a = entA and b = entB and en = ?en
      and env' = ?env]
  have g: "triggerEvents ?c0" "\<not> triggerEvents ?c1"
    "\<not> recorded (collisions (initial :: int sys_state)) entA entB"
    "\<not> noResponse (collisionFlags (body1 ?m))"
    "collision (?env entA) \<noteq> None" "collision (?env entB) \<noteq> None"
    "\<not> rigidbody (?env entA)" "trigger (?env entA)"
    by (simp_all add: ex_defs triggerEvents_def hasEvent_def recorded_def othersAt_def
          noResponse_def BODYFLAG_NORESPONSE_OBJECT_def)
  have a: "countEnter entA entB (fired ?st') = countEnter entA entB (fired (initial :: int sys_state)) + 1"
    using T h1 g by simp
  have b: "countEnter entB entA (fired ?st') = countEnter entB entA (fired (initial :: int sys_state))"
    using T h1 g by simp
  have c: "countLeave entA entB (fired (cleanOldCollisions ?env ?s)) = countLeave entA entB (fired ?s) + 1"
    using T h2 g by simp
  have z: "countEnter entA entB (fired (initial :: int sys_state)) = 0"
    "countEnter entB entA (fired (initial :: int sys_state)) = 0"
    "countLeave entA entB (fired ?s) = 0"
    by (simp_all add: initial_def exTouching_def countLeave_def)
  from a b z have "countEnter entA entB [Fire entA ''triggerenter'' (Other entB) :: int event] = 1"
    "countEnter entB entA [Fire entA ''triggerenter'' (Other entB) :: int event] = 0"
    by (simp_all only: exTouching_def sys_state.simps)
  with c z ex_process_trigger show ?thesis
    by simp
qed

subsection \<open>Forward and reverse contact points\<close>

text \<open>
  C5. For every contact point of a manifold, the forward and the reverse contact point
  built from it have swapped world points and swapped local points, and both carry the
  same normal, the world-space normal on B of the engine's contact point. This holds
  whatever the two pooled instances \<open>p\<close> and \<open>q\<close> held before.
\<close>

theorem forward_reverse_swapped:
  "point (createContactPointFromAmmo p cp) = pointOther (createReverseContactPointFromAmmo q cp)
   \<and> pointOther (createContactPointFromAmmo p cp) = point (createReverseContactPointFromAmmo q cp)
   \<and> localPoint (createContactPointFromAmmo p cp)
       = localPointOther (createReverseContactPointFromAmmo q cp)
   \<and> localPointOther (createContactPointFromAmmo p cp)
       = localPoint (createReverseContactPointFromAmmo q cp)
   \<and> normal (createContactPointFromAmmo p cp) = normal (createReverseContactPointFromAmmo q cp)
   \<and> normal (createContactPointFromAmmo p cp)
       = Vec3 (bt_x (m_normalWorldOnB cp)) (bt_y (m_normalWorldOnB cp)) (bt_z (m_normalWorldOnB cp))"
  by (simp add: createContactPointFromAmmo_def createReverseContactPointFromAmmo_def Vec3_set_eq)

subsection \<open>Ray casting\<close>

text \<open>
  With a callback that returns, \<open>raycastFirst\<close> does what is expected of it: on a hit
  whose body resolves to an owning entity the callback is invoked exactly once, with that
  entity and the world-space hit point and normal; on a miss it is not invoked; and the
  calls into the library are the creation of the query object, the ray test and one
  release of the query object.
\<close>

lemma raycastFirst_returning_callback:
  assumes r: "r = world (btVector3 (vec_x start) (vec_y start) (vec_z start))
                        (btVector3 (vec_x finish) (vec_y finish) (vec_z finish))"
      and ret: "\<And>x. callback x = Returns"
  shows "\<exists>st'. raycastFirst world ammoRayStart ammoRayEnd start finish callback st = Inr st'
       \<and> (hasHit r \<and> m_collisionObject r = Some b \<and> body_entity b = Some ent \<longrightarrow>
            callbackCalls st' = callbackCalls st @
              [\<lparr> rr_entity = Some ent,
                 rr_point = Vec3 (bt_x (m_hitPointWorld r)) (bt_y (m_hitPointWorld r))
                              (bt_z (m_hitPointWorld r)),
                 rr_normal = Vec3 (bt_x (m_hitNormalWorld r)) (bt_y (m_hitNormalWorld r))
                               (bt_z (m_hitNormalWorld r)) \<rparr>])
       \<and> (\<not> hasHit r \<longrightarrow> callbackCalls st' = callbackCalls st)
       \<and> native_ops st' = native_ops st @
            [NewClosestRayResultCallback (nextHandle st), RayTest (nextHandle st),
             Destroy (nextHandle st)]"
  using r ret
  by (simp add: raycastFirst_def btVector3_setValue_eq Let_def split: option.splits)

text \<open>
  On a hit with a body, a callback that throws leaves \<open>raycastFirst\<close> before the
  release: the query object was created and used, and is never destroyed.
\<close>

lemma raycastFirst_throwing_callback:
  assumes r: "r = world (btVector3 (vec_x start) (vec_y start) (vec_z start))
                        (btVector3 (vec_x finish) (vec_y finish) (vec_z finish))"
      and hit: "hasHit r" "m_collisionObject r = Some b"
      and thr: "\<And>x. callback x = Throws"
  shows "\<exists>st'. raycastFirst world ammoRayStart ammoRayEnd start finish callback st = Inl st'
       \<and> native_ops st' = native_ops st @
            [NewClosestRayResultCallback (nextHandle st), RayTest (nextHandle st)]"
  using r hit thr
  by (simp add: raycastFirst_def btVector3_setValue_eq Let_def)

text \<open>
  C6. The release of the query object on the hit path does not hold for every
  invocation: at a hit on the body of \<open>Entity 1 ''a''\<close> with a callback that throws,
  the callback is invoked once and \<open>raycastFirst\<close> is left with the query object
  \<open>5\<close> created, used and not destroyed.
\<close>

theorem raycastFirst_throwing_callback_leaks:
  "raycastFirst
     (\<lambda>s e. \<lparr> hasHit = True,
               m_collisionObject = Some \<lparr> body_entity = Some (Entity 1 ''a''), collisionFlags = 0 \<rparr>,
               m_hitPointWorld = btVector3 1 2 3, m_hitNormalWorld = btVector3 0 1 0 \<rparr>)
     (btVector3 7 7 7) (btVector3 8 8 8) (Vec3 0 0 0) (Vec3 (0::int) 0 9)
     (\<lambda>result. Throws)
     \<lparr> nextHandle = 5, native_ops = [], callbackCalls = [] \<rparr>
   = Inl \<lparr> nextHandle = 6,
           native_ops = [NewClosestRayResultCallback 5, RayTest 5],
           callbackCalls =
             [\<lparr> rr_entity = Some (Entity 1 ''a''), rr_point = Vec3 1 2 3,
                rr_normal = Vec3 0 1 0 \<rparr>] \<rparr>"
  by (simp add: raycastFirst_def btVector3_setValue_eq Let_def)

subsection \<open>Component removal\<close>

text \<open>
  C7. \<open>onRemove\<close> removes the owned body from the world, then destroys the native
  handle, and leaves the body reference null; a second call on the same component data
  changes nothing and makes no call into the library.
\<close>

theorem onRemove_releases_once:
  "onRemove data ops =
     (data \<lparr> data_body := None \<rparr>,
      case data_body data of
        Some b \<Rightarrow> ops @ [RemoveRigidBody b, Destroy b]
      | None \<Rightarrow> ops)
   \<and> onRemove (fst (onRemove data ops)) (snd (onRemove data ops)) = onRemove data ops"
  by (simp add: onRemove_def removeBody_def Ammo_destroy_def split: option.splits)

subsection \<open>Entities without a collision component\<close>

text \<open>
  C8. If a step completes without a throw, then for every manifold of the step with a
  contact point whose two bodies resolve to entities, both entities have a collision
  sub-component: \<open>hasEvent\<close> is read from it on either branch before anything else
  is done for the manifold.
\<close>

theorem onUpdate_requires_collision:
  assumes "onUpdate fr st = Inr st'"
    and "m \<in> set (manifolds fr)" and "0 < getNumContacts m"
    and "body_entity (body0 m) = Some e0" and "body_entity (body1 m) = Some e1"
  shows "collision (ents fr e0) \<noteq> None \<and> collision (ents fr e1) \<noteq> None"
  using assms(1)
proof (cases rule: onUpdate_Inr)
  case (1 st1)
  from manifoldLoop_Inr_collision [OF 1(1) assms(2,4,5,3)] show ?thesis .
qed

theorem onUpdate_requires_collision_witness:
  "onUpdate collideFrame initial
     = Inr (exTouching [Fire entA ''contact'' (Contacts exResult),
                        Fire entA ''collisionstart'' (Contacts exResult)])
   \<and> collision (ents collideFrame entA) \<noteq> None
   \<and> collision (ents collideFrame entB) \<noteq> None
   \<and> collision (ents brokenFrame entB) = None
   \<and> onUpdate brokenFrame initial = Inl (TypeError, initial)"
proof -
  have 2: "exManifold 0 0 [exContact] \<in> set (manifolds collideFrame)"
    and 3: "0 < getNumContacts (exManifold 0 0 [exContact])"
    and 4: "body_entity (body0 (exManifold 0 0 [exContact])) = Some entA"
    and 5: "body_entity (body1 (exManifold 0 0 [exContact])) = Some entB"
    by (simp_all add: ex_defs getNumContacts_def)
  have "collision (ents brokenFrame entB) = None"
    by (simp add: ex_defs)
  with onUpdate_requires_collision [OF ex_collide_first 2 3 4 5] ex_collide_first ex_broken
  show ?thesis
    by simp
qed

subsection \<open>Suppressed trigger enter\<close>

text \<open>
  C9. On the trigger path, let the first manifold of a step that joins an entity of
  \<open>a\<close>'s guid with \<open>b\<close> register the pairing of \<open>a\<close> with \<open>b\<close> while both
  bodies are no-response objects and the durable registry does not hold the pairing.
  The step fires no \<open>triggerenter\<close> on \<open>a\<close> for \<open>b\<close>, and the pairing is in the
  durable registry afterwards. Over any further steps of the overlap (each registers the
  pairing again) no \<open>triggerenter\<close> is fired on \<open>a\<close> for \<open>b\<close>, whatever the
  flags are by then, and none in the step after those.
\<close>

theorem triggerenter_suppressed_while_recorded:
  assumes "onUpdate fr st0 = Inr st1"
    and "manifolds fr = pre @ m # post"
    and "\<forall>m' \<in> set pre. \<not> links (getGuid a) b m'"
    and "(a, b) \<in> set (registered (ents fr) m)"
    and "noResponse (collisionFlags (body0 m))" and "noResponse (collisionFlags (body1 m))"
    and "\<not> recorded (collisions st0) a b"
    and "onUpdates frs st1 = Inr st2"
    and "\<forall>fr' \<in> set frs. \<exists>m' \<in> set (manifolds fr'). (a, b) \<in> set (registered (ents fr') m')"
  shows "countEnter a b (fired st1) = countEnter a b (fired st0)
       \<and> recorded (collisions st1) a b
       \<and> countEnter a b (fired st2) = countEnter a b (fired st0)
       \<and> recorded (collisions st2) a b
       \<and> (\<forall>fr' st3. onUpdate fr' st2 = Inr st3 \<longrightarrow>
             countEnter a b (fired st3) = countEnter a b (fired st0))"
proof -
  from assms(1) obtain s where
    loop: "manifoldLoop (ents fr) (globalContact fr) (manifolds fr) (st0 \<lparr> frameCollisions := [] \<rparr>) = Inr s"
    and st1: "st1 = cleanOldCollisions (ents fr) s"
    by (rule onUpdate_Inr)
  from manifoldLoop_first_suppressed [OF loop [unfolded assms(2)] assms(3,4,5,6)]
  have first: "countEnter a b (fired st1) = countEnter a b (fired st0)"
    unfolding st1 by (simp add: cleanOldCollisions_quiet)
  have "m \<in> set (manifolds fr)"
    unfolding assms(2) by simp
  then have r1: "recorded (collisions st1) a b"
    using assms(4) by (rule onUpdate_keeps_recorded [OF assms(1)])
  from onUpdates_recorded_quiet [OF assms(8) r1 assms(9)]
  have later: "countEnter a b (fired st2) = countEnter a b (fired st1)"
    and r2: "recorded (collisions st2) a b"
    by simp_all
  from r2 have "countEnter a b (fired st3) = countEnter a b (fired st2)"
    if "onUpdate fr' st2 = Inr st3" for fr' :: "'a frame" and st3
    using onUpdate_recorded_quiet [OF that] by simp
  with first later r1 r2 show ?thesis by simp
qed

theorem triggerenter_suppressed_while_recorded_witness:
  "onUpdate (triggerFrame [exManifold 4 4 [exContact]]) initial = Inr (exTouching [])
   \<and> (entA, entB) \<in> set (registered (ents (triggerFrame [])) (exManifold 4 4 [exContact]))
   \<and> noResponse (collisionFlags (body0 (exManifold 4 4 [exContact])))
   \<and> noResponse (collisionFlags (body1 (exManifold 4 4 [exContact])))
   \<and> \<not> recorded (collisions (initial :: int sys_state)) entA entB
   \<and> recorded (collisions (exTouching [])) entA entB
   \<and> onUpdates [triggerFrame [exManifold 4 4 [exContact]],
                  triggerFrame [exManifold 4 0 [exContact]]] (exTouching [])
       = Inr (exTouching [])
   \<and> countEnter entA entB (fired (exTouching [])) = 0"
proof -
  let ?fr = "triggerFrame [exManifold 4 4 [exContact]]"
  let ?fr' = "triggerFrame [exManifold 4 0 [exContact]]"
  let ?m = "exManifold 4 4 [exContact]"
  have 1: "onUpdate ?fr initial = Inr (exTouching [])"
    by (rule ex_triggers_overlap)
  have 2: "manifolds ?fr = [] @ ?m # []"
    by (simp add: ex_defs)
  have 3: "\<forall>m' \<in> set []. \<not> links (getGuid entA) entB (m' :: int manifold)"
    by simp
  have 4: "(entA, entB) \<in> set (registered (ents ?fr) ?m)"
    by (simp add: ex_defs obs_defs step_defs)
  have reg2: "(entA, entB) \<in> set (registered (ents ?fr') (exManifold 4 0 [exContact]))"
    by (simp add: ex_defs obs_defs step_defs)
  have 5: "noResponse (collisionFlags (body0 ?m))" and 6: "noResponse (collisionFlags (body1 ?m))"
    by (simp_all add: ex_defs noResponse_def BODYFLAG_NORESPONSE_OBJECT_def)
  have 7: "\<not> recorded (collisions (initial :: int sys_state)) entA entB"
    by (simp add: ex_defs recorded_def othersAt_def)
  have 8: "onUpdates [?fr, ?fr'] (exTouching []) = Inr (exTouching [])"
    by (simp add: ex_triggers_overlap)
  have 9: "\<forall>fr' \<in> set [?fr, ?fr']. \<exists>m' \<in> set (manifolds fr').
             (entA, entB) \<in> set (registered (ents fr') m')"
    using 4 reg2 by (simp add: triggerFrame_def exFrame_def)
  have e: "ents (triggerFrame []) = ents ?fr"
    by (simp add: triggerFrame_def exFrame_def)
  note T = triggerenter_suppressed_while_recorded [OF 1 2 3 4 5 6 7 8 9]
  have a: "countEnter entA entB (fired (exTouching [])) = countEnter entA entB (fired (initial :: int sys_state))"
    and r: "recorded (collisions (exTouching [])) entA entB"
    using T by blast+
  have "countEnter entA entB (fired (initial :: int sys_state)) = 0"
    by (simp add: initial_def)
  with a r 1 4 5 6 7 8 e show ?thesis
    by simp
qed

subsection \<open>Manifolds without contact points\<close>

text \<open>
  C10. A manifold without contact points is ignored: processing it leaves the registries
  and the log as they were, and a step gives the same result, events of the
  reconciliation included, as the step without that manifold.
\<close>

theorem zero_contact_manifold_ignored:
  assumes "getNumContacts m = 0"
  shows "onUpdate (fr \<lparr> manifolds := pre @ m # post \<rparr>) st
           = onUpdate (fr \<lparr> manifolds := pre @ post \<rparr>) st
       \<and> processManifold env glob m st = Inr st"
  using assms
  by (simp add: onUpdate_def manifoldLoop_append processManifold_no_contacts split: sum.splits)

theorem zero_contact_manifold_ignored_witness:
  "getNumContacts (exManifold 0 0 []) = 0
   \<and> onUpdate restingFrame (exTouching []) = onUpdate apartFrame (exTouching [])
   \<and> onUpdate restingFrame (exTouching [])
       = Inr \<lparr> collisions = [], frameCollisions = [],
               fired = [Fire entA ''collisionend'' (Other entB)] \<rparr>"
proof -
  have 0: "getNumContacts (exManifold 0 0 []) = 0"
    by (simp add: ex_defs getNumContacts_def)
  have r: "restingFrame = apartFrame \<lparr> manifolds := [] @ exManifold 0 0 [] # [] \<rparr>"
    and a: "apartFrame = apartFrame \<lparr> manifolds := [] @ [] \<rparr>"
    by (simp_all add: restingFrame_def apartFrame_def exFrame_def)
  from zero_contact_manifold_ignored [OF 0, where fr = apartFrame and pre = "[]" and post = "[]"
      and st = "exTouching []"]
  have "onUpdate restingFrame (exTouching []) = onUpdate apartFrame (exTouching [])"
    using r a by simp
  with 0 ex_separate [of "[]"] show ?thesis
    by simp
qed

end
